theory Spec2Isabelle
  imports Complex_Main "HOL-Library.Product_Lexorder"
begin

section \<open>Field extraction from OCR fragments (backend/app/ocr.py)\<close>

text \<open>
  The development embeds \<^verbatim>\<open>DataCardOCR.extract_field_counts\<close>,
  \<^verbatim>\<open>DataCardOCR._find_item_count\<close> and the public \<^verbatim>\<open>process_image\<close>.

  Conventions of the embedding.
  \<^item> A Python \<^verbatim>\<open>str\<close> is a \<^typ>\<open>string\<close>; a character is read as the code point
    0..255 it denotes, so \<^verbatim>\<open>str.lower\<close>, \<^verbatim>\<open>str.split\<close>, \<^verbatim>\<open>\s\<close> and \<^verbatim>\<open>\d\<close> are the
    restrictions of the Unicode functions to that range.
  \<^item> Pixel coordinates and counts are \<^typ>\<open>int\<close> (Python integers).
  \<^item> A Python \<^verbatim>\<open>float\<close> is the \<^typ>\<open>rat\<close> it denotes. Confidences are inputs and are
    only copied and compared with 0. Match qualities are computed, and line 290 compares
    them with one another, so their arithmetic is rounded as binary64 does: the quotient
    \<^verbatim>\<open>match_count / len(key_words)\<close> and the sum \<^verbatim>\<open>match_quality + 0.5\<close> are each
    rounded to the nearest number with a 53-bit significand, ties to even
    (\<open>round_double\<close> below). The overlap of the blocking rule is a quotient \<open>k / n\<close>
    that is only compared with the constant 0.7; it is kept exact, which gives the same
    comparison for every name of fewer than \<open>2 ^ 49\<close> key words.
  \<^item> \<^verbatim>\<open>str.find\<close> and \<^verbatim>\<open>str.rfind\<close> return \<open>-1\<close> when the substring is absent, as in
    Python.
\<close>

subsection \<open>String primitives\<close>

definition is_space :: "char \<Rightarrow> bool" where
  "is_space c = (let n = (of_char c :: nat) in
     (9 \<le> n \<and> n \<le> 13) \<or> (28 \<le> n \<and> n \<le> 32) \<or> n = 133 \<or> n = 160)"

definition is_digit :: "char \<Rightarrow> bool" where
  "is_digit c = (let n = (of_char c :: nat) in 48 \<le> n \<and> n \<le> 57)"

definition lower_char :: "char \<Rightarrow> char" where
  "lower_char c = (let n = (of_char c :: nat) in
     if (65 \<le> n \<and> n \<le> 90) \<or> (192 \<le> n \<and> n \<le> 222 \<and> n \<noteq> 215)
     then char_of (n + 32) else c)"

text \<open>\<^verbatim>\<open>s.lower()\<close>\<close>

definition lower :: "string \<Rightarrow> string" where
  "lower s = map lower_char s"

text \<open>\<^verbatim>\<open>s.startswith(w)\<close>, used to define \<^verbatim>\<open>find\<close> and \<^verbatim>\<open>rfind\<close>.\<close>

fun startswith :: "string \<Rightarrow> string \<Rightarrow> bool" where
  "startswith s [] = True"
| "startswith [] (c # w) = False"
| "startswith (d # s) (c # w) = (d = c \<and> startswith s w)"

text \<open>\<^verbatim>\<open>s.find(w)\<close>: the lowest index at which \<open>w\<close> occurs in \<open>s\<close>, or \<open>-1\<close>.\<close>

fun find_from :: "string \<Rightarrow> string \<Rightarrow> nat \<Rightarrow> int" where
  "find_from [] w i = (if w = [] then int i else -1)"
| "find_from (c # s) w i =
     (if startswith (c # s) w then int i else find_from s w (Suc i))"

definition find_str :: "string \<Rightarrow> string \<Rightarrow> int" where
  "find_str s w = find_from s w 0"

text \<open>\<^verbatim>\<open>s.rfind(w)\<close>: the highest index at which \<open>w\<close> occurs in \<open>s\<close>, or \<open>-1\<close>.\<close>

fun rfind_from :: "string \<Rightarrow> string \<Rightarrow> nat \<Rightarrow> int" where
  "rfind_from [] w i = (if w = [] then int i else -1)"
| "rfind_from (c # s) w i =
     (let r = rfind_from s w (Suc i) in
      if 0 \<le> r then r else if startswith (c # s) w then int i else -1)"

definition rfind_str :: "string \<Rightarrow> string \<Rightarrow> int" where
  "rfind_str s w = rfind_from s w 0"

text \<open>\<^verbatim>\<open>w in s\<close>\<close>

definition contains :: "string \<Rightarrow> string \<Rightarrow> bool" where
  "contains s w = (0 \<le> find_str s w)"

text \<open>\<^verbatim>\<open>s.split()\<close>: the maximal runs of non-whitespace characters.\<close>

fun split_words :: "string \<Rightarrow> string \<Rightarrow> string list" where
  "split_words cur [] = (if cur = [] then [] else [cur])"
| "split_words cur (c # s) =
     (if is_space c
      then (if cur = [] then split_words [] s else cur # split_words [] s)
      else split_words (cur @ [c]) s)"

definition split :: "string \<Rightarrow> string list" where
  "split s = split_words [] s"

text \<open>\<^verbatim>\<open>int(ds)\<close> on a run of decimal digits.\<close>

definition digit_val :: "char \<Rightarrow> int" where
  "digit_val c = int (of_char c) - 48"

definition int_of_digits :: "string \<Rightarrow> int" where
  "int_of_digits ds = foldl (\<lambda>acc c. 10 * acc + digit_val c) 0 ds"

text \<open>
  \<^verbatim>\<open>re.search(r'=\s*(\d+)', s)\<close>. \<open>number_at s\<close> is the match of the pattern at the
  very start of \<open>s\<close>: an equals sign, any whitespace, then the longest run of digits,
  which must not be empty. \<open>re_search_from\<close> tries each start position from the left
  and returns \<open>(m.start(), int(m.group(1)))\<close> of the first match.
\<close>

fun number_at :: "string \<Rightarrow> int option" where
  "number_at [] = None"
| "number_at (c # s) =
     (if c = CHR ''='' then
        (let ds = takeWhile is_digit (dropWhile is_space s) in
         if ds = [] then None else Some (int_of_digits ds))
      else None)"

fun re_search_from :: "string \<Rightarrow> nat \<Rightarrow> (nat \<times> int) option" where
  "re_search_from [] i = None"
| "re_search_from (c # s) i =
     (case number_at (c # s) of
        Some n \<Rightarrow> Some (i, n)
      | None \<Rightarrow> re_search_from s (Suc i))"

definition re_search :: "string \<Rightarrow> (nat \<times> int) option" where
  "re_search s = re_search_from s 0"

subsection \<open>Data model\<close>

text \<open>
  One OCR detection: \<^verbatim>\<open>{'text': .., 'confidence': .., 'box': [x_min, y_min, x_max, y_max]}\<close>.
  The field \<open>ftext\<close> is the dictionary entry \<^verbatim>\<open>'text'\<close>, and \<open>val\<close> below is the attribute
  \<^verbatim>\<open>value\<close> of \<^verbatim>\<open>OcrFieldResult\<close>.
\<close>

record fragment =
  ftext :: string
  confidence :: rat
  x_min :: int
  y_min :: int
  x_max :: int
  y_max :: int

record FieldSchemaInput =
  fname :: string

record CategorySchemaInput =
  cname :: string
  cfields :: "FieldSchemaInput list"

record FormSchemaOutput =
  categories :: "CategorySchemaInput list"
  updated_at :: string

record OcrFieldResult =
  val :: "int option"
  conf :: "rat option"

subsection \<open>Fuzzy label matcher (\<^verbatim>\<open>_find_item_count\<close>, lines 239-284)\<close>

text \<open>
  \<^verbatim>\<open>key_words = [w for w in item_lower.split() if len(w) > 3]\<close>, falling back to all
  words when none is longer than three characters.
\<close>

definition key_words :: "string \<Rightarrow> string list" where
  "key_words item_name =
     (let item_words = split (lower item_name);
          kw = filter (\<lambda>w. length w > 3) item_words
      in if kw = [] then item_words else kw)"

text \<open>
  \<^verbatim>\<open>word in text_lower or (len(word) >= 4 and text_lower.find(word[:4]) >= 0)\<close>
\<close>

definition word_hit :: "string \<Rightarrow> string \<Rightarrow> bool" where
  "word_hit text_lower word =
     (contains text_lower word \<or> (length word \<ge> 4 \<and> 0 \<le> find_str text_lower (take 4 word)))"

definition match_count :: "string list \<Rightarrow> string \<Rightarrow> nat" where
  "match_count kws text_lower = length (filter (word_hit text_lower) kws)"

text \<open>
  Binary64 rounding of a non-negative number below 2. \<open>round_half_even m\<close> is the integer
  nearest to \<open>m\<close>, the even one of the two when \<open>m\<close> lies half way.
  \<open>binades_below_one b x\<close> counts the doublings that bring \<open>x\<close> to 1 or above, at most
  \<open>b\<close> of them; for \<open>1 / 2 ^ b \<le> x < 2\<close> it is \<open>j\<close> with \<open>1 \<le> x * 2 ^ j < 2\<close>, and the
  numbers with a 53-bit significand around \<open>x\<close> are then the multiples of
  \<open>1 / 2 ^ (52 + j)\<close>. \<open>round_double b x\<close> is the nearest of them. The exponent range of
  binary64 is not modelled: it is reached only by a name of more than \<open>2 ^ 1000\<close> words.
\<close>

definition round_half_even :: "rat \<Rightarrow> int" where
  "round_half_even m =
     (let f = \<lfloor>m\<rfloor>; d = m - of_int f in
      if d < 1 / 2 then f else if d > 1 / 2 then f + 1 else if even f then f else f + 1)"

fun binades_below_one :: "nat \<Rightarrow> rat \<Rightarrow> nat" where
  "binades_below_one 0 x = 0"
| "binades_below_one (Suc b) x = (if 1 \<le> x then 0 else Suc (binades_below_one b (2 * x)))"

definition round_double :: "nat \<Rightarrow> rat \<Rightarrow> rat" where
  "round_double b x =
     (if x \<le> 0 then 0
      else let s = 52 + binades_below_one b x
           in of_int (round_half_even (x * 2 ^ s)) / 2 ^ s)"

text \<open>
  \<^verbatim>\<open>match_count / len(key_words) if key_words else 0\<close>: the true division of two
  integers, correctly rounded. A quotient \<open>k / n\<close> with \<open>0 < k\<close> is at least
  \<open>1 / 2 ^ n\<close>, so \<open>n\<close> doublings suffice.
\<close>

definition base_quality :: "string list \<Rightarrow> string \<Rightarrow> rat" where
  "base_quality kws text_lower =
     (if kws \<noteq> []
      then round_double (length kws)
             (of_nat (match_count kws text_lower) / of_nat (length kws))
      else 0)"

text \<open>
  The position the order check gives a key word: \<^verbatim>\<open>find(word)\<close>, and when that is
  negative and the word has at least four characters, \<^verbatim>\<open>find(word[:4])\<close>.
\<close>

definition word_pos :: "string \<Rightarrow> string \<Rightarrow> int" where
  "word_pos text_lower word =
     (let pos = find_str text_lower word in
      if pos < 0 \<and> length word \<ge> 4 then find_str text_lower (take 4 word) else pos)"

text \<open>The loop of lines 266-276, with \<open>last_pos\<close> as the accumulator.\<close>

fun in_order_loop :: "string \<Rightarrow> string list \<Rightarrow> int \<Rightarrow> bool" where
  "in_order_loop text_lower [] last_pos = True"
| "in_order_loop text_lower (word # ws) last_pos =
     (let pos = word_pos text_lower word in
      if 0 \<le> pos then
        (if pos \<le> last_pos then False else in_order_loop text_lower ws pos)
      else in_order_loop text_lower ws last_pos)"

definition in_order :: "string list \<Rightarrow> string \<Rightarrow> bool" where
  "in_order kws text_lower = in_order_loop text_lower kws (-1)"

text \<open>
  Lines 263-280. \<^verbatim>\<open>match_quality += 0.5\<close> is a floating-point addition; the sum is at
  least \<open>1 / 2\<close>, so one doubling suffices.
\<close>

definition match_quality :: "string list \<Rightarrow> string \<Rightarrow> rat" where
  "match_quality kws t =
     (let text_lower = lower t;
          q = base_quality kws text_lower
      in if in_order kws text_lower \<and> q > 0 then round_double 1 (q + 1 / 2) else q)"

text \<open>
  An entry of \<^verbatim>\<open>item_matches\<close> is the tuple \<^verbatim>\<open>(text, x, y, conf, match_quality)\<close>.
\<close>

type_synonym item_match = "string \<times> int \<times> int \<times> rat \<times> rat"

definition mq :: "item_match \<Rightarrow> rat" where
  "mq m = snd (snd (snd (snd m)))"

definition to_match :: "string list \<Rightarrow> fragment \<Rightarrow> item_match" where
  "to_match kws item =
     (ftext item, x_min item, y_min item, confidence item, match_quality kws (ftext item))"

definition item_matches :: "string list \<Rightarrow> fragment list \<Rightarrow> item_match list" where
  "item_matches kws ocr_items =
     filter (\<lambda>m. mq m \<ge> 1 / 2) (map (to_match kws) ocr_items)"

text \<open>
  \<^verbatim>\<open>item_matches.sort(key=lambda m: m[4], reverse=True)\<close>: Python's sort is stable,
  also with \<^verbatim>\<open>reverse=True\<close>, so matches of equal quality keep their order.
\<close>

definition sort_matches :: "item_match list \<Rightarrow> item_match list" where
  "sort_matches ms = sort_key (\<lambda>m. - mq m) ms"

text \<open>
  The anchor: \<^verbatim>\<open>item_matches[0]\<close> after the sort, when there is a match at all.
\<close>

definition anchor :: "string list \<Rightarrow> fragment list \<Rightarrow> item_match option" where
  "anchor kws ocr_items =
     (case sort_matches (item_matches kws ocr_items) of
        [] \<Rightarrow> None
      | m # ms \<Rightarrow> Some m)"

subsection \<open>Embedded count (\<^verbatim>\<open>_find_item_count\<close>, lines 295-310)\<close>

text \<open>
  The loop of lines 300-304: the largest \<^verbatim>\<open>item_text_lower.rfind(word)\<close> over the key
  words, starting from \<open>-1\<close>.
\<close>

fun last_keyword_loop :: "string \<Rightarrow> string list \<Rightarrow> int \<Rightarrow> int" where
  "last_keyword_loop item_text_lower [] last_keyword_pos = last_keyword_pos"
| "last_keyword_loop item_text_lower (word # ws) last_keyword_pos =
     (let pos = rfind_str item_text_lower word in
      last_keyword_loop item_text_lower ws
        (if pos > last_keyword_pos then pos else last_keyword_pos))"

definition last_keyword_pos :: "string list \<Rightarrow> string \<Rightarrow> int" where
  "last_keyword_pos kws item_text = last_keyword_loop (lower item_text) kws (-1)"

definition embedded_count :: "string list \<Rightarrow> string \<Rightarrow> int option" where
  "embedded_count kws item_text =
     (case re_search item_text of
        None \<Rightarrow> None
      | Some (count_pos, count) \<Rightarrow>
          if int count_pos > last_keyword_pos kws item_text then Some count else None)"

subsection \<open>Spatial linker (\<^verbatim>\<open>_find_item_count\<close>, lines 312-372)\<close>

text \<open>
  \<^verbatim>\<open>other_words\<close> of lines 341-344 and the overlap of lines 351-352, which counts whole
  key words only.
\<close>

definition other_match_quality :: "string \<Rightarrow> string \<Rightarrow> rat" where
  "other_match_quality other_item check_text_lower =
     (let other_words = key_words other_item in
      if other_words \<noteq> []
      then of_nat (length (filter (contains check_text_lower) other_words))
             / of_nat (length other_words)
      else 0)"

text \<open>
  Lines 346-358 for one other schema item: some fragment matches it with quality at least
  0.7 and lies between the label and the candidate.
\<close>

definition blocks :: "fragment list \<Rightarrow> int \<Rightarrow> int \<Rightarrow> int \<Rightarrow> string \<Rightarrow> bool" where
  "blocks ocr_items item_x item_y x other_item =
     list_ex (\<lambda>check_item.
        other_match_quality other_item (lower (ftext check_item)) \<ge> 7 / 10
        \<and> item_x + 30 < x_min check_item \<and> x_min check_item < x - 30
        \<and> \<bar>y_min check_item - item_y\<bar> < 15) ocr_items"

text \<open>Lines 336-361: the flag \<^verbatim>\<open>blocked\<close> after the loop over \<^verbatim>\<open>all_items\<close>.\<close>

definition blocked :: "string \<Rightarrow> string list \<Rightarrow> fragment list \<Rightarrow> int \<Rightarrow> int \<Rightarrow> int \<Rightarrow> bool" where
  "blocked item_name all_items ocr_items item_x item_y x =
     list_ex (\<lambda>other_item. other_item \<noteq> item_name
                \<and> blocks ocr_items item_x item_y x other_item) all_items"

text \<open>
  The state of the scan is \<^verbatim>\<open>(best_count, best_confidence, best_distance)\<close>; \<open>None\<close>
  stands for the initial \<^verbatim>\<open>(None, None, inf)\<close>.
\<close>

type_synonym best = "(int \<times> rat \<times> int) option"

text \<open>Line 334: \<^verbatim>\<open>dx > 0 and dx < 400 and dy < 18\<close>.\<close>

definition accepted :: "int \<Rightarrow> int \<Rightarrow> fragment \<Rightarrow> bool" where
  "accepted item_x item_y item =
     (let dx = x_min item - item_x;
          dy = \<bar>y_min item - item_y\<bar>
      in dx > 0 \<and> dx < 400 \<and> dy < 18)"

definition link_step ::
  "string \<Rightarrow> string list \<Rightarrow> fragment list \<Rightarrow> int \<Rightarrow> int \<Rightarrow> best \<Rightarrow> fragment \<Rightarrow> best" where
  "link_step item_name all_items ocr_items item_x item_y b item =
     (case re_search (ftext item) of
        None \<Rightarrow> b
      | Some (start, count) \<Rightarrow>
          if accepted item_x item_y item then
            (if \<not> blocked item_name all_items ocr_items item_x item_y (x_min item) then
               (case b of
                  None \<Rightarrow> Some (count, confidence item, x_min item - item_x)
                | Some (bc, bconf, best_distance) \<Rightarrow>
                    if x_min item - item_x < best_distance
                    then Some (count, confidence item, x_min item - item_x) else b)
             else b)
          else b)"

fun link_loop ::
  "string \<Rightarrow> string list \<Rightarrow> fragment list \<Rightarrow> int \<Rightarrow> int \<Rightarrow> best \<Rightarrow> fragment list \<Rightarrow> best" where
  "link_loop item_name all_items ocr_items item_x item_y b [] = b"
| "link_loop item_name all_items ocr_items item_x item_y b (item # rest) =
     link_loop item_name all_items ocr_items item_x item_y
       (link_step item_name all_items ocr_items item_x item_y b item) rest"

definition spatial_link ::
  "string \<Rightarrow> string list \<Rightarrow> fragment list \<Rightarrow> int \<Rightarrow> int \<Rightarrow> (int \<times> rat) option" where
  "spatial_link item_name all_items ocr_items item_x item_y =
     (case link_loop item_name all_items ocr_items item_x item_y None ocr_items of
        None \<Rightarrow> None
      | Some (best_count, best_confidence, best_distance) \<Rightarrow> Some (best_count, best_confidence))"

subsection \<open>\<^verbatim>\<open>_find_item_count\<close>\<close>

definition find_item_count :: "string \<Rightarrow> fragment list \<Rightarrow> string list \<Rightarrow> int \<times> rat" where
  "find_item_count item_name ocr_items all_items =
     (let kws = key_words item_name in
      case anchor kws ocr_items of
        None \<Rightarrow> (0, 0)
      | Some (item_text, item_x, item_y, item_conf, quality) \<Rightarrow>
          (case embedded_count kws item_text of
             Some count \<Rightarrow> (count, item_conf)
           | None \<Rightarrow>
               (case spatial_link item_name all_items ocr_items item_x item_y of
                  Some r \<Rightarrow> r
                | None \<Rightarrow> (0, 0))))"

subsection \<open>\<^verbatim>\<open>extract_field_counts\<close>\<close>

text \<open>Lines 175-181: the flat list of field names and the dictionary from field to category.\<close>

definition all_field_names :: "FormSchemaOutput \<Rightarrow> string list" where
  "all_field_names schema = concat (map (\<lambda>c. map fname (cfields c)) (categories schema))"

definition build_field_to_category :: "CategorySchemaInput list \<Rightarrow> (string \<rightharpoonup> string)" where
  "build_field_to_category cats =
     fold (\<lambda>c m. fold (\<lambda>f m'. m'(fname f \<mapsto> cname c)) (cfields c) m) cats Map.empty"

definition field_to_category :: "FormSchemaOutput \<Rightarrow> (string \<rightharpoonup> string)" where
  "field_to_category schema = build_field_to_category (categories schema)"

text \<open>
  Line 184: \<^verbatim>\<open>sorted(ocr_results, key=lambda x: (x['box'][1], x['box'][0]))\<close>, a stable sort
  on the pair \<open>(y_min, x_min)\<close> in lexicographic order.
\<close>

definition sorted_results :: "fragment list \<Rightarrow> fragment list" where
  "sorted_results ocr_results = sort_key (\<lambda>x. (y_min x, x_min x)) ocr_results"

type_synonym category_results = "string \<rightharpoonup> (string \<rightharpoonup> OcrFieldResult)"

text \<open>Lines 187-189.\<close>

definition init_results :: "FormSchemaOutput \<Rightarrow> category_results" where
  "init_results schema =
     fold (\<lambda>c m. m(cname c \<mapsto> Map.empty)) (categories schema) Map.empty"

text \<open>Lines 202-212: what is stored for a pair returned by \<^verbatim>\<open>_find_item_count\<close>.\<close>

definition field_result :: "int \<times> rat \<Rightarrow> OcrFieldResult" where
  "field_result r =
     (case r of (count, cf) \<Rightarrow>
        if count > 0 \<or> cf > 0
        then \<lparr>val = Some count, conf = Some cf\<rparr>
        else \<lparr>val = None, conf = None\<rparr>)"

text \<open>
  One round of the loop of lines 192-212. The two dictionary subscripts
  \<^verbatim>\<open>field_to_category[field_name]\<close> and \<^verbatim>\<open>category_results[category_name]\<close> raise
  \<^verbatim>\<open>KeyError\<close> on a missing key; that is the result \<open>None\<close>.
\<close>

definition store_field ::
  "(string \<rightharpoonup> string) \<Rightarrow> fragment list \<Rightarrow> string list \<Rightarrow> string
     \<Rightarrow> category_results \<Rightarrow> category_results option" where
  "store_field f2c items all_names field_name res =
     (let r = find_item_count field_name items all_names in
      case f2c field_name of
        None \<Rightarrow> None
      | Some category_name \<Rightarrow>
          (case res category_name of
             None \<Rightarrow> None
           | Some m \<Rightarrow> Some (res(category_name \<mapsto> m(field_name \<mapsto> field_result r)))))"

fun store_fields ::
  "(string \<rightharpoonup> string) \<Rightarrow> fragment list \<Rightarrow> string list \<Rightarrow> string list
     \<Rightarrow> category_results \<Rightarrow> category_results option" where
  "store_fields f2c items all_names [] res = Some res"
| "store_fields f2c items all_names (field_name # rest) res =
     (case store_field f2c items all_names field_name res of
        None \<Rightarrow> None
      | Some res' \<Rightarrow> store_fields f2c items all_names rest res')"

definition extract_field_counts :: "fragment list \<Rightarrow> FormSchemaOutput \<Rightarrow> category_results option" where
  "extract_field_counts ocr_results schema =
     store_fields (field_to_category schema) (sorted_results ocr_results)
       (all_field_names schema) (all_field_names schema) (init_results schema)"

text \<open>\<^verbatim>\<open>result[category_name][field_name]\<close> on the returned dictionary, \<open>None\<close> when a key is missing.\<close>

definition lookup_field :: "category_results option \<Rightarrow> string \<Rightarrow> string \<Rightarrow> OcrFieldResult option" where
  "lookup_field res category_name field_name =
     (case res of
        None \<Rightarrow> None
      | Some r \<Rightarrow> (case r category_name of None \<Rightarrow> None | Some m \<Rightarrow> m field_name))"

subsection \<open>\<^verbatim>\<open>process_image\<close> and its collaborators\<close>

text \<open>
  The image decoder and the OCR engine are libraries outside the repository. They are
  parameters of the model: an engine instance is the pair of functions the code calls on
  it, each of which may raise. \<open>Exception\<close> stands for any exception derived from
  Python's \<^verbatim>\<open>Exception\<close>.
\<close>

datatype error = Exception string

record 'img DataCardOCR =
  decode_base64_image :: "string \<Rightarrow> error + 'img"
  process_image_ocr :: "'img \<Rightarrow> error + fragment list"

record OcrCategoryResult =
  ocr_name :: string
  ocr_fields :: "string \<rightharpoonup> OcrFieldResult"

record OcrFormResult =
  form_categories :: "string \<rightharpoonup> OcrCategoryResult"

text \<open>Lines 377-410.\<close>

definition process_image_to_form_result ::
  "'img DataCardOCR \<Rightarrow> string \<Rightarrow> FormSchemaOutput \<Rightarrow> error + OcrFormResult" where
  "process_image_to_form_result ocr image_b64 schema =
     (case decode_base64_image ocr image_b64 of
        Inl e \<Rightarrow> Inl e
      | Inr img \<Rightarrow>
          (case process_image_ocr ocr img of
             Inl e \<Rightarrow> Inl e
           | Inr ocr_results \<Rightarrow>
               (case extract_field_counts ocr_results schema of
                  None \<Rightarrow> Inl (Exception ''KeyError'')
                | Some category_results \<Rightarrow>
                    Inr \<lparr>form_categories = (\<lambda>category_name.
                          map_option (\<lambda>fs. \<lparr>ocr_name = category_name, ocr_fields = fs\<rparr>)
                            (category_results category_name))\<rparr>)))"

text \<open>
  Lines 418-426. The global \<^verbatim>\<open>_ocr_instance\<close> is threaded as state; \<open>new_ocr\<close> is
  the outcome of the constructor call \<^verbatim>\<open>DataCardOCR()\<close>, which builds the engine.
\<close>

definition get_ocr_instance ::
  "(error + 'img DataCardOCR) \<Rightarrow> 'img DataCardOCR option
     \<Rightarrow> (error + 'img DataCardOCR) \<times> 'img DataCardOCR option" where
  "get_ocr_instance new_ocr ocr_instance =
     (case ocr_instance of
        Some ocr \<Rightarrow> (Inr ocr, ocr_instance)
      | None \<Rightarrow>
          (case new_ocr of
             Inl e \<Rightarrow> (Inl e, None)
           | Inr ocr \<Rightarrow> (Inr ocr, Some ocr)))"

text \<open>Lines 429-451: the call of \<^verbatim>\<open>get_ocr_instance\<close> precedes the \<^verbatim>\<open>try\<close>.\<close>

definition process_image ::
  "(error + 'img DataCardOCR) \<Rightarrow> 'img DataCardOCR option \<Rightarrow> string \<Rightarrow> FormSchemaOutput
     \<Rightarrow> (error + OcrFormResult) \<times> 'img DataCardOCR option" where
  "process_image new_ocr ocr_instance image_b64 schema =
     (case get_ocr_instance new_ocr ocr_instance of
        (Inl e, st) \<Rightarrow> (Inl e, st)
      | (Inr ocr, st) \<Rightarrow>
          (case process_image_to_form_result ocr image_b64 schema of
             Inl e \<Rightarrow> (Inr \<lparr>form_categories = Map.empty\<rparr>, st)
           | Inr r \<Rightarrow> (Inr r, st)))"

subsection \<open>The matcher in the words of the specification\<close>

text \<open>
  The specification's order bonus: the positions of the matched key words, in schema
  order, are strictly increasing. These three definitions follow the specification and
  are compared with \<open>in_order\<close> and \<open>match_quality\<close> above, which follow the code.
\<close>

definition spec_matched_positions :: "string list \<Rightarrow> string \<Rightarrow> int list" where
  "spec_matched_positions kws text_lower = filter (\<lambda>p. 0 \<le> p) (map (word_pos text_lower) kws)"

definition spec_positions_increasing :: "string list \<Rightarrow> string \<Rightarrow> bool" where
  "spec_positions_increasing kws text_lower = sorted_wrt (<) (spec_matched_positions kws text_lower)"

definition spec_quality :: "string list \<Rightarrow> string \<Rightarrow> rat" where
  "spec_quality kws t =
     of_nat (match_count kws (lower t)) / of_nat (length kws)
       + (if spec_positions_increasing kws (lower t) then 1 / 2 else 0)"

subsection \<open>Candidates of the spatial linker\<close>

text \<open>
  The three tests a fragment passes before lines 364-369 compare its distance: the pattern
  matches (line 323), it lies on the label's line to the right (line 334), and it is not
  blocked (line 363).
\<close>

definition candidate :: "string \<Rightarrow> string list \<Rightarrow> fragment list \<Rightarrow> int \<Rightarrow> int \<Rightarrow> fragment \<Rightarrow> bool" where
  "candidate item_name all_items ocr_items item_x item_y item =
     (re_search (ftext item) \<noteq> None \<and> accepted item_x item_y item
      \<and> \<not> blocked item_name all_items ocr_items item_x item_y (x_min item))"

text \<open>
  The invariant of the scan: after the fragments \<open>seen\<close>, the state is empty when none of
  them is a candidate, and otherwise it holds count, confidence and distance of a candidate
  among them whose distance is least.
\<close>

definition link_inv ::
  "string \<Rightarrow> string list \<Rightarrow> fragment list \<Rightarrow> int \<Rightarrow> int \<Rightarrow> fragment list \<Rightarrow> best \<Rightarrow> bool" where
  "link_inv f names items lx ly seen b =
     (case b of
        None \<Rightarrow> \<forall>v \<in> set seen. \<not> candidate f names items lx ly v
      | Some (n, c, d) \<Rightarrow>
          \<exists>w \<in> set seen. candidate f names items lx ly w
            \<and> (\<exists>s. re_search (ftext w) = Some (s, n)) \<and> c = confidence w \<and> d = x_min w - lx
            \<and> (\<forall>v \<in> set seen. candidate f names items lx ly v \<longrightarrow> d \<le> x_min v - lx))"

subsection \<open>Example inputs\<close>

definition frag :: "string \<Rightarrow> rat \<Rightarrow> int \<Rightarrow> int \<Rightarrow> fragment" where
  "frag t c x y =
     \<lparr>ftext = t, confidence = c, x_min = x, y_min = y, x_max = x + 100, y_max = y + 12\<rparr>"

definition category :: "string \<Rightarrow> string list \<Rightarrow> CategorySchemaInput" where
  "category c fs = \<lparr>cname = c, cfields = map (\<lambda>f. \<lparr>fname = f\<rparr>) fs\<rparr>"

definition form :: "CategorySchemaInput list \<Rightarrow> FormSchemaOutput" where
  "form cs = \<lparr>categories = cs, updated_at = ''2025-01-01T00:00:00Z''\<rparr>"

definition metal_schema :: FormSchemaOutput where
  "metal_schema = form [category ''Metal'' [''cans'']]"

definition plastic_schema :: FormSchemaOutput where
  "plastic_schema = form [category ''Plastic'' [''Plastic bottles'']]"

definition butts_line :: "fragment list" where
  "butts_line = [frag ''Cigarette butts'' (9 / 10) 10 10, frag ''=12'' (85 / 100) 30 10,
                 frag ''= 9'' (7 / 10) 60 12, frag ''=4'' (95 / 100) 411 10]"

definition far_line :: "fragment list" where
  "far_line = [frag ''Cigarette butts'' (9 / 10) 10 10, frag ''=4'' (95 / 100) 411 10]"

definition cups_line :: "fragment list" where
  "cups_line = [frag ''Paper cups'' (9 / 10) 10 10, frag ''Paper straws'' (9 / 10) 100 10,
                frag ''=5'' (8 / 10) 200 10]"

definition tie_sorted :: "fragment list" where
  "tie_sorted = [frag ''cans'' (9 / 10) 10 10, frag ''Cans'' (8 / 10) 10 50]"

definition tie_unsorted :: "fragment list" where
  "tie_unsorted = [frag ''cans'' (9 / 10) 10 100, frag ''=3'' (8 / 10) 30 100,
                   frag ''cans'' (8 / 10) 10 10, frag ''=7'' (7 / 10) 30 10]"

definition duplicate_schema :: FormSchemaOutput where
  "duplicate_schema =
     form [category ''Plastics'' [''bottles'', ''bags''], category ''Glass'' [''bottles'', ''jars'']]"

definition cups_line_dy15 :: "fragment list" where
  "cups_line_dy15 = [frag ''Paper cups'' (9 / 10) 10 10, frag ''Paper straws'' (9 / 10) 100 25,
                     frag ''=5'' (8 / 10) 200 10]"

definition materials :: string where
  "materials = ''Paper plastic metal glass rubber cloth''"

definition near_tie :: "fragment list" where
  "near_tie = [frag ''paper plastic'' (9 / 10) 10 10,
               frag ''plastic paper metal glass rubber'' (8 / 10) 10 50]"

definition failing_decoder :: "string DataCardOCR" where
  "failing_decoder =
     \<lparr>decode_base64_image = (\<lambda>s. Inl (Exception ''cannot identify image file'')),
      process_image_ocr = (\<lambda>img. Inr [])\<rparr>"

section \<open>Properties\<close>

subsection \<open>The result dictionary in closed form\<close>

lemma fold_fields: "fold (\<lambda>f m'. m'(fname f \<mapsto> c)) fs m = (\<lambda>x. if x \<in> fname ` set fs then Some c else m x)"
  by (induction fs arbitrary: m) (auto simp: fun_eq_iff)

lemma f2c_snoc:
  "build_field_to_category (cats @ [c]) x =
     (if x \<in> fname ` set (cfields c) then Some (cname c) else build_field_to_category cats x)"
  by (simp add: build_field_to_category_def fold_fields)

lemma f2c_Some:
  "build_field_to_category cats x = Some cn \<Longrightarrow>
     \<exists>c \<in> set cats. cname c = cn \<and> x \<in> fname ` set (cfields c)"
proof (induction cats rule: rev_induct)
  case Nil then show ?case by (simp add: build_field_to_category_def)
next
  case (snoc c cats) then show ?case by (auto simp: f2c_snoc split: if_splits)
qed

lemma f2c_declared:
  "c \<in> set cats \<Longrightarrow> x \<in> fname ` set (cfields c) \<Longrightarrow> \<exists>cn. build_field_to_category cats x = Some cn"
proof (induction cats rule: rev_induct)
  case Nil then show ?case by simp
next
  case (snoc c' cats) then show ?case by (auto simp: f2c_snoc)
qed

lemma field_to_category_declared:
  assumes "f \<in> set (all_field_names schema)"
  shows "\<exists>cn. field_to_category schema f = Some cn"
proof -
  from assms obtain c where "c \<in> set (categories schema)" "f \<in> fname ` set (cfields c)"
    by (auto simp: all_field_names_def)
  then show ?thesis unfolding field_to_category_def by (rule f2c_declared)
qed

lemma field_to_category_Some:
  assumes "field_to_category schema f = Some cn"
  shows "f \<in> set (all_field_names schema) \<and> cn \<in> cname ` set (categories schema)"
  using f2c_Some[OF assms[unfolded field_to_category_def]]
  by (auto simp: all_field_names_def)

lemma init_fold:
  "fold (\<lambda>c m. m(cname c \<mapsto> Map.empty)) cats m =
     (\<lambda>n. if n \<in> cname ` set cats then Some Map.empty else m n)"
  by (induction cats arbitrary: m) (auto simp: fun_eq_iff)

lemma init_results_apply:
  "init_results schema n = (if n \<in> cname ` set (categories schema) then Some Map.empty else None)"
  by (simp add: init_results_def init_fold)

lemma store_fields_closed:
  assumes "\<forall>f \<in> set ns. \<exists>c. f2c f = Some c \<and> res c \<noteq> None"
  shows "store_fields f2c items all_names ns res =
    Some (\<lambda>c. case res c of None \<Rightarrow> None
              | Some m0 \<Rightarrow> Some (\<lambda>f. if f \<in> set ns \<and> f2c f = Some c
                                    then Some (field_result (find_item_count f items all_names)) else m0 f))"
  using assms
proof (induction ns arbitrary: res)
  case Nil
  then show ?case by (auto simp: fun_eq_iff split: option.splits)
next
  case (Cons n ns)
  from Cons.prems obtain c m where c: "f2c n = Some c" "res c = Some m" by auto
  let ?res' = "res(c \<mapsto> m(n \<mapsto> field_result (find_item_count n items all_names)))"
  have st: "store_field f2c items all_names n res = Some ?res'"
    using c by (simp add: store_field_def)
  have pre: "\<forall>f \<in> set ns. \<exists>c. f2c f = Some c \<and> ?res' c \<noteq> None"
  proof
    fix f assume "f \<in> set ns"
    then obtain c' where "f2c f = Some c'" "res c' \<noteq> None" using Cons.prems by auto
    then show "\<exists>c. f2c f = Some c \<and> ?res' c \<noteq> None" by (cases "c' = c") auto
  qed
  show ?case
    unfolding store_fields.simps st option.case Cons.IH[OF pre]
    using c by (auto simp: fun_eq_iff split: option.splits)
qed

lemma lookup_field_extract:
  "lookup_field (extract_field_counts frs schema) c f =
     (if field_to_category schema f = Some c
      then Some (field_result (find_item_count f (sorted_results frs) (all_field_names schema)))
      else None)"
proof -
  have pre: "\<forall>f \<in> set (all_field_names schema).
      \<exists>c. field_to_category schema f = Some c \<and> init_results schema c \<noteq> None"
  proof
    fix f assume "f \<in> set (all_field_names schema)"
    then obtain cn where cn: "field_to_category schema f = Some cn"
      using field_to_category_declared by blast
    with field_to_category_Some have "cn \<in> cname ` set (categories schema)" by blast
    with cn show "\<exists>c. field_to_category schema f = Some c \<and> init_results schema c \<noteq> None"
      by (simp add: init_results_apply)
  qed
  show ?thesis
  proof (cases "field_to_category schema f = Some c")
    case True
    with field_to_category_Some
    have "f \<in> set (all_field_names schema)" "c \<in> cname ` set (categories schema)" by blast+
    with True show ?thesis
      by (simp add: extract_field_counts_def store_fields_closed[OF pre] lookup_field_def
          init_results_apply)
  next
    case False
    then show ?thesis
      by (simp add: extract_field_counts_def store_fields_closed[OF pre] lookup_field_def
          init_results_apply)
  qed
qed

lemma extract_field_counts_returns: "extract_field_counts frs schema \<noteq> None"
proof -
  have pre: "\<forall>f \<in> set (all_field_names schema).
      \<exists>c. field_to_category schema f = Some c \<and> init_results schema c \<noteq> None"
  proof
    fix f assume "f \<in> set (all_field_names schema)"
    then obtain cn where cn: "field_to_category schema f = Some cn"
      using field_to_category_declared by blast
    with field_to_category_Some have "cn \<in> cname ` set (categories schema)" by blast
    with cn show "\<exists>c. field_to_category schema f = Some c \<and> init_results schema c \<noteq> None"
      by (simp add: init_results_apply)
  qed
  show ?thesis by (simp add: extract_field_counts_def store_fields_closed[OF pre])
qed

subsection \<open>Counts are never negative\<close>

lemma digit_val_nonneg: "is_digit c \<Longrightarrow> 0 \<le> digit_val c"
  by (simp add: is_digit_def digit_val_def Let_def)

lemma foldl_digits_nonneg:
  "0 \<le> acc \<Longrightarrow> \<forall>c \<in> set ds. is_digit c \<Longrightarrow> 0 \<le> foldl (\<lambda>acc c. 10 * acc + digit_val c) acc ds"
proof (induction ds arbitrary: acc)
  case Nil then show ?case by simp
next
  case (Cons d ds)
  have "0 \<le> 10 * acc + digit_val d" using Cons.prems digit_val_nonneg[of d] by simp
  then show ?case using Cons by simp
qed

lemma number_at_nonneg: "number_at s = Some n \<Longrightarrow> 0 \<le> n"
proof (cases s)
  case Nil then show "number_at s = Some n \<Longrightarrow> 0 \<le> n" by simp
next
  case (Cons c r)
  assume "number_at s = Some n"
  with Cons have "n = int_of_digits (takeWhile is_digit (dropWhile is_space r))"
    by (auto simp: Let_def split: if_splits)
  moreover have "\<forall>c \<in> set (takeWhile is_digit (dropWhile is_space r)). is_digit c"
    by (auto dest: set_takeWhileD)
  ultimately show "0 \<le> n" unfolding int_of_digits_def by (simp add: foldl_digits_nonneg)
qed

lemma re_search_from_nonneg: "re_search_from s i = Some (p, n) \<Longrightarrow> 0 \<le> n"
proof (induction s arbitrary: i)
  case Nil then show ?case by simp
next
  case (Cons c s)
  then show ?case
    by (cases "number_at (c # s)") (auto dest: number_at_nonneg simp del: number_at.simps)
qed

lemma re_search_nonneg: "re_search s = Some (p, n) \<Longrightarrow> 0 \<le> n"
  unfolding re_search_def by (rule re_search_from_nonneg)

lemma link_step_nonneg:
  assumes "\<forall>n c d. b = Some (n, c, d) \<longrightarrow> 0 \<le> n"
    and "link_step f names items lx ly b v = Some (n, c, d)"
  shows "0 \<le> n"
  using assms
  by (auto simp: link_step_def split: option.splits if_splits prod.splits dest: re_search_nonneg)

lemma link_loop_nonneg:
  assumes "\<forall>n c d. b = Some (n, c, d) \<longrightarrow> 0 \<le> n"
    and "link_loop f names items lx ly b scan = Some (n, c, d)"
  shows "0 \<le> n"
  using assms
proof (induction scan arbitrary: b)
  case Nil then show ?case by simp
next
  case (Cons v scan)
  have "\<forall>n c d. link_step f names items lx ly b v = Some (n, c, d) \<longrightarrow> 0 \<le> n"
    using link_step_nonneg[OF Cons.prems(1)] by blast
  from Cons.IH[OF this] Cons.prems(2) show ?case by simp
qed

lemma spatial_link_nonneg: "spatial_link f names items lx ly = Some (n, c) \<Longrightarrow> 0 \<le> n"
  unfolding spatial_link_def
  by (auto split: option.splits prod.splits dest: link_loop_nonneg[rotated])

lemma embedded_count_nonneg: "embedded_count kws t = Some n \<Longrightarrow> 0 \<le> n"
  unfolding embedded_count_def
  by (auto split: option.splits prod.splits if_splits dest: re_search_nonneg)

lemma find_item_count_nonneg: "0 \<le> fst (find_item_count f items names)"
  unfolding find_item_count_def Let_def
  by (auto split: option.splits prod.splits dest: embedded_count_nonneg spatial_link_nonneg)

lemma anchor_empty: "anchor kws [] = None"
  by (simp add: anchor_def item_matches_def sort_matches_def)

lemma find_item_count_no_anchor:
  "anchor (key_words f) items = None \<Longrightarrow> find_item_count f items names = (0, 0)"
  by (simp add: find_item_count_def)

lemma find_item_count_no_count:
  "anchor (key_words f) items = Some (t, x, y, c, q) \<Longrightarrow> embedded_count (key_words f) t = None \<Longrightarrow>
   spatial_link f names items x y = None \<Longrightarrow> find_item_count f items names = (0, 0)"
  by (simp add: find_item_count_def)

lemma field_result_sentinel: "field_result (0, 0) = \<lparr>val = None, conf = None\<rparr>"
  by (simp add: field_result_def)

text \<open>
  Claim C1, as the code has it. When the label of a declared field is found but neither
  the embedded check nor the spatial linker yields a count, \<^verbatim>\<open>_find_item_count\<close>
  returns the pair \<open>(0, 0.0)\<close>, the pair it also returns when no label is found; in both
  cases \<^verbatim>\<open>extract_field_counts\<close> stores \<open>(None, None)\<close> for the field, so the public
  output does not tell the two outcomes apart.
\<close>

theorem label_without_count_recorded_as_none:
  assumes "f \<in> set (all_field_names schema)"
    and "anchor (key_words f) (sorted_results frs) = None
         \<or> (\<exists>t x y c q. anchor (key_words f) (sorted_results frs) = Some (t, x, y, c, q)
               \<and> embedded_count (key_words f) t = None
               \<and> spatial_link f (all_field_names schema) (sorted_results frs) x y = None)"
  shows "find_item_count f (sorted_results frs) (all_field_names schema) = (0, 0)
         \<and> (\<exists>cat. field_to_category schema f = Some cat
               \<and> lookup_field (extract_field_counts frs schema) cat f
                   = Some \<lparr>val = None, conf = None\<rparr>)"
proof -
  have r: "find_item_count f (sorted_results frs) (all_field_names schema) = (0, 0)"
    using assms(2) find_item_count_no_anchor find_item_count_no_count by blast
  obtain cat where cat: "field_to_category schema f = Some cat"
    using field_to_category_declared[OF assms(1)] by blast
  have "lookup_field (extract_field_counts frs schema) cat f = Some \<lparr>val = None, conf = None\<rparr>"
    by (simp add: lookup_field_extract cat r field_result_sentinel)
  with r cat show ?thesis by blast
qed

text \<open>The statement at the single fragment \<open>cans\<close>, which carries no count.\<close>

theorem label_without_count_recorded_as_none_witness:
  "''cans'' \<in> set (all_field_names metal_schema)
   \<and> anchor (key_words ''cans'') (sorted_results [frag ''cans'' (9 / 10) 10 10])
       = Some (''cans'', 10, 10, 9 / 10, 3 / 2)
   \<and> embedded_count (key_words ''cans'') ''cans'' = None
   \<and> spatial_link ''cans'' (all_field_names metal_schema)
        (sorted_results [frag ''cans'' (9 / 10) 10 10]) 10 10 = None
   \<and> find_item_count ''cans'' (sorted_results [frag ''cans'' (9 / 10) 10 10])
        (all_field_names metal_schema) = (0, 0)
   \<and> (\<exists>cat. field_to_category metal_schema ''cans'' = Some cat
         \<and> lookup_field (extract_field_counts [frag ''cans'' (9 / 10) 10 10] metal_schema) cat ''cans''
             = Some \<lparr>val = None, conf = None\<rparr>)"
proof -
  have a: "''cans'' \<in> set (all_field_names metal_schema)" by code_simp
  have b: "anchor (key_words ''cans'') (sorted_results [frag ''cans'' (9 / 10) 10 10])
       = Some (''cans'', 10, 10, 9 / 10, 3 / 2)" by code_simp
  have c: "embedded_count (key_words ''cans'') ''cans'' = None" by code_simp
  have d: "spatial_link ''cans'' (all_field_names metal_schema)
        (sorted_results [frag ''cans'' (9 / 10) 10 10]) 10 10 = None" by code_simp
  from b c d have e: "anchor (key_words ''cans'') (sorted_results [frag ''cans'' (9 / 10) 10 10]) = None
         \<or> (\<exists>t x y c q. anchor (key_words ''cans'') (sorted_results [frag ''cans'' (9 / 10) 10 10]) = Some (t, x, y, c, q)
               \<and> embedded_count (key_words ''cans'') t = None
               \<and> spatial_link ''cans'' (all_field_names metal_schema) (sorted_results [frag ''cans'' (9 / 10) 10 10]) x y = None)"
    by blast
  show ?thesis using a b c d label_without_count_recorded_as_none[OF a e] by blast
qed

text \<open>
  Claim C1 as stated fails: the label \<open>cans\<close> is found and no count is linked, yet the
  public entry is \<open>(None, None)\<close> and not \<open>(0, 0.0)\<close>, and it equals the entry obtained
  from a fragment list in which no label is found.
\<close>

theorem sentinel_not_public_counterexample:
  "anchor (key_words ''cans'') (sorted_results [frag ''cans'' (9 / 10) 10 10])
       = Some (''cans'', 10, 10, 9 / 10, 3 / 2)
   \<and> find_item_count ''cans'' (sorted_results [frag ''cans'' (9 / 10) 10 10]) [''cans''] = (0, 0)
   \<and> lookup_field (extract_field_counts [frag ''cans'' (9 / 10) 10 10] metal_schema) ''Metal'' ''cans''
       = Some \<lparr>val = None, conf = None\<rparr>
   \<and> lookup_field (extract_field_counts [frag ''cans'' (9 / 10) 10 10] metal_schema) ''Metal'' ''cans''
       \<noteq> Some \<lparr>val = Some 0, conf = Some 0\<rparr>
   \<and> anchor (key_words ''cans'') (sorted_results [frag ''lids'' (9 / 10) 10 10]) = None
   \<and> lookup_field (extract_field_counts [frag ''lids'' (9 / 10) 10 10] metal_schema) ''Metal'' ''cans''
       = lookup_field (extract_field_counts [frag ''cans'' (9 / 10) 10 10] metal_schema) ''Metal'' ''cans''"
  by code_simp

text \<open>
  On an empty fragment list \<^verbatim>\<open>extract_field_counts\<close> returns, every declared field name
  has the entry \<open>(None, None)\<close> under the category that \<^verbatim>\<open>field_to_category\<close> gives it,
  and the result holds no other entry.
\<close>

lemma empty_fragments_entries_none:
  "extract_field_counts [] schema \<noteq> None
   \<and> (\<forall>f \<in> set (all_field_names schema). \<exists>cat. field_to_category schema f = Some cat
         \<and> lookup_field (extract_field_counts [] schema) cat f = Some \<lparr>val = None, conf = None\<rparr>)
   \<and> (\<forall>cat f r. lookup_field (extract_field_counts [] schema) cat f = Some r
         \<longrightarrow> r = \<lparr>val = None, conf = None\<rparr>)"
proof -
  have s: "sorted_results [] = []" by (simp add: sorted_results_def)
  have r: "\<And>f. field_result (find_item_count f (sorted_results []) (all_field_names schema))
              = \<lparr>val = None, conf = None\<rparr>"
    by (simp add: s find_item_count_no_anchor anchor_empty field_result_sentinel)
  have 1: "extract_field_counts [] schema \<noteq> None" by (rule extract_field_counts_returns)
  have 2: "\<forall>f \<in> set (all_field_names schema). \<exists>cat. field_to_category schema f = Some cat
         \<and> lookup_field (extract_field_counts [] schema) cat f = Some \<lparr>val = None, conf = None\<rparr>"
  proof
    fix f assume "f \<in> set (all_field_names schema)"
    then obtain cat where "field_to_category schema f = Some cat"
      using field_to_category_declared by blast
    then show "\<exists>cat. field_to_category schema f = Some cat
         \<and> lookup_field (extract_field_counts [] schema) cat f = Some \<lparr>val = None, conf = None\<rparr>"
      by (simp add: lookup_field_extract r)
  qed
  have 3: "\<forall>cat f r. lookup_field (extract_field_counts [] schema) cat f = Some r
         \<longrightarrow> r = \<lparr>val = None, conf = None\<rparr>"
    by (auto simp: lookup_field_extract r split: if_splits)
  from 1 2 3 show ?thesis by blast
qed

text \<open>
  Claim C4. In every entry of the public output the value is \<open>None\<close> exactly when the
  confidence is \<open>None\<close>, and a value that is present is an integer that is not negative.
\<close>

theorem field_result_invariant:
  assumes "lookup_field (extract_field_counts frs schema) cat f = Some r"
  shows "(val r = None \<longleftrightarrow> conf r = None) \<and> (\<forall>v. val r = Some v \<longrightarrow> 0 \<le> v)"
proof -
  from assms have r: "r = field_result (find_item_count f (sorted_results frs) (all_field_names schema))"
    by (auto simp: lookup_field_extract split: if_splits)
  obtain n c where nc: "find_item_count f (sorted_results frs) (all_field_names schema) = (n, c)"
    by (cases "find_item_count f (sorted_results frs) (all_field_names schema)")
  have "0 \<le> n" using find_item_count_nonneg[of f "sorted_results frs" "all_field_names schema"] nc by simp
  then show ?thesis by (simp add: r nc field_result_def)
qed

text \<open>The statement at a fragment that carries label and count together.\<close>

theorem field_result_invariant_witness:
  "lookup_field (extract_field_counts [frag ''Plastic bottles =8'' (92 / 100) 10 10] plastic_schema)
      ''Plastic'' ''Plastic bottles'' = Some \<lparr>val = Some 8, conf = Some (92 / 100)\<rparr>
   \<and> (val \<lparr>val = Some 8, conf = Some (92 / 100)\<rparr> = None
        \<longleftrightarrow> conf \<lparr>val = Some 8, conf = Some (92 / 100)\<rparr> = None)
   \<and> val \<lparr>val = Some (8::int), conf = Some (92 / 100)\<rparr> = Some 8 \<and> (0::int) \<le> 8"
proof -
  have a: "lookup_field (extract_field_counts [frag ''Plastic bottles =8'' (92 / 100) 10 10] plastic_schema)
      ''Plastic'' ''Plastic bottles'' = Some \<lparr>val = Some 8, conf = Some (92 / 100)\<rparr>" by code_simp
  show ?thesis using a field_result_invariant[OF a] by simp
qed

subsection \<open>Declared fields and their categories\<close>

text \<open>
  When no field name is declared twice, every declared field is stored under its own
  category; and for every schema an entry of the result belongs to a field that some
  category of that name declares.
\<close>

lemma f2c_distinct:
  "distinct (concat (map (\<lambda>c. map fname (cfields c)) cats)) \<Longrightarrow> c \<in> set cats \<Longrightarrow>
   f \<in> fname ` set (cfields c) \<Longrightarrow> build_field_to_category cats f = Some (cname c)"
proof (induction cats rule: rev_induct)
  case Nil then show ?case by simp
next
  case (snoc c' cats)
  from snoc.prems(1) have d: "distinct (concat (map (\<lambda>c. map fname (cfields c)) cats))"
    and disj: "set (concat (map (\<lambda>c. map fname (cfields c)) cats)) \<inter> fname ` set (cfields c') = {}"
    by auto
  show ?case
  proof (cases "f \<in> fname ` set (cfields c')")
    case True
    have "c = c'"
    proof (rule ccontr)
      assume "c \<noteq> c'"
      with snoc.prems(2) have "c \<in> set cats" by simp
      with snoc.prems(3) have "f \<in> set (concat (map (\<lambda>c. map fname (cfields c)) cats))" by auto
      with True disj show False by blast
    qed
    with True show ?thesis by (simp add: f2c_snoc)
  next
    case False
    with snoc.prems(2,3) have "c \<in> set cats" by auto
    from snoc.IH[OF d this snoc.prems(3)] False show ?thesis by (simp add: f2c_snoc)
  qed
qed

lemma declared_field_present_if_distinct:
  assumes "distinct (all_field_names schema)" and "c \<in> set (categories schema)"
    and "f \<in> fname ` set (cfields c)"
  shows "lookup_field (extract_field_counts frs schema) (cname c) f
           = Some (field_result (find_item_count f (sorted_results frs) (all_field_names schema)))"
  using f2c_distinct[OF assms(1)[unfolded all_field_names_def] assms(2,3)]
  by (simp add: lookup_field_extract field_to_category_def)

lemma only_declared_fields_appear:
  assumes "lookup_field (extract_field_counts frs schema) cat f = Some r"
  shows "\<exists>c \<in> set (categories schema). cname c = cat \<and> f \<in> fname ` set (cfields c)"
proof -
  from assms have "field_to_category schema f = Some cat"
    by (auto simp: lookup_field_extract split: if_splits)
  then show ?thesis unfolding field_to_category_def by (rule f2c_Some)
qed

text \<open>
  With no fragments, a field of a schema without repeated field names is stored as
  \<open>(None, None)\<close> under the category that declares it.
\<close>

lemma empty_fragments_none_if_distinct:
  assumes "distinct (all_field_names schema)" and "c \<in> set (categories schema)"
    and "f \<in> fname ` set (cfields c)"
  shows "lookup_field (extract_field_counts [] schema) (cname c) f
           = Some \<lparr>val = None, conf = None\<rparr>"
proof -
  have "sorted_results [] = []" by (simp add: sorted_results_def)
  then have "field_result (find_item_count f (sorted_results []) (all_field_names schema))
               = \<lparr>val = None, conf = None\<rparr>"
    by (simp add: find_item_count_no_anchor anchor_empty field_result_sentinel)
  with declared_field_present_if_distinct[OF assms, of "[]"] show ?thesis by simp
qed

text \<open>
  Claim C3 at the empty fragment list and a schema that declares the field \<open>bottles\<close> in
  two categories. The field declared under \<open>Plastics\<close> is not resolved to \<open>(None, None)\<close>:
  the result has no entry for it at all, and the one entry for the name is stored under
  \<open>Glass\<close>.
\<close>

theorem empty_fragments_duplicate_name_missing:
  "all_field_names duplicate_schema = [''bottles'', ''bags'', ''bottles'', ''jars'']
   \<and> field_to_category duplicate_schema ''bottles'' = Some ''Glass''
   \<and> lookup_field (extract_field_counts [] duplicate_schema) ''Plastics'' ''bottles'' = None
   \<and> lookup_field (extract_field_counts [] duplicate_schema) ''Plastics'' ''bags''
       = Some \<lparr>val = None, conf = None\<rparr>
   \<and> lookup_field (extract_field_counts [] duplicate_schema) ''Glass'' ''bottles''
       = Some \<lparr>val = None, conf = None\<rparr>
   \<and> lookup_field (extract_field_counts [] duplicate_schema) ''Glass'' ''jars''
       = Some \<lparr>val = None, conf = None\<rparr>"
  by code_simp

text \<open>
  Claim C2 at a schema that declares the field \<open>bottles\<close> in two categories, as the schema
  of the repository's API tests does. The dictionary from field name to category keeps
  the last category only, so the result holds no entry for \<open>bottles\<close> under \<open>Plastics\<close>.
\<close>

theorem duplicate_field_name_dropped:
  "lookup_field (extract_field_counts [frag ''bottles =3'' (9 / 10) 10 10]
       (form [category ''Plastics'' [''bottles'', ''bags''], category ''Glass'' [''bottles'', ''jars'']]))
     ''Plastics'' ''bottles'' = None
   \<and> lookup_field (extract_field_counts [frag ''bottles =3'' (9 / 10) 10 10]
       (form [category ''Plastics'' [''bottles'', ''bags''], category ''Glass'' [''bottles'', ''jars'']]))
     ''Glass'' ''bottles'' = Some \<lparr>val = Some 3, conf = Some (9 / 10)\<rparr>"
  by code_simp

subsection \<open>Match quality\<close>

lemma word_pos_hit: "0 \<le> word_pos text_lower w \<longleftrightarrow> word_hit text_lower w"
  by (auto simp: word_pos_def word_hit_def contains_def Let_def)

lemma in_order_loop_sorted:
  "in_order_loop text_lower ws last_pos \<longleftrightarrow>
     sorted_wrt (<) (spec_matched_positions ws text_lower)
     \<and> (\<forall>p \<in> set (spec_matched_positions ws text_lower). last_pos < p)"
proof (induction ws arbitrary: last_pos)
  case Nil
  then show ?case by (simp add: spec_matched_positions_def)
next
  case (Cons w ws)
  show ?case
  proof (cases "0 \<le> word_pos text_lower w")
    case True
    then show ?thesis
      using Cons.IH[of "word_pos text_lower w"]
      by (auto simp: spec_matched_positions_def Let_def)
  next
    case False
    then show ?thesis
      using Cons.IH[of last_pos] by (simp add: spec_matched_positions_def Let_def)
  qed
qed

lemma in_order_increasing: "in_order kws text_lower = spec_positions_increasing kws text_lower"
  unfolding in_order_def spec_positions_increasing_def in_order_loop_sorted
  by (auto simp: spec_matched_positions_def)

lemma match_count_le: "match_count kws text_lower \<le> length kws"
  by (simp add: match_count_def)

text \<open>Rounding: sign, the bounds 1 and 1.5, and the error of one rounding.\<close>

lemma round_half_even_ge_floor: "\<lfloor>m\<rfloor> \<le> round_half_even m"
  by (simp add: round_half_even_def Let_def)

lemma round_half_even_le_ceiling: "round_half_even m \<le> \<lceil>m\<rceil>"
proof -
  have "m - of_int \<lfloor>m\<rfloor> \<noteq> 0 \<Longrightarrow> \<lfloor>m\<rfloor> + 1 \<le> \<lceil>m\<rceil>"
    by (simp add: ceiling_altdef)
  moreover have "\<lfloor>m\<rfloor> \<le> \<lceil>m\<rceil>" by (rule floor_le_ceiling)
  ultimately show ?thesis
    by (auto simp: round_half_even_def Let_def)
qed

lemma round_half_even_error: "\<bar>of_int (round_half_even m) - m\<bar> \<le> 1 / 2"
proof -
  have "of_int \<lfloor>m\<rfloor> \<le> m" "m < of_int \<lfloor>m\<rfloor> + 1" by linarith+
  then show ?thesis
    by (auto simp: round_half_even_def Let_def abs_le_iff)
qed

lemma binades_reach_one:
  "1 / 2 ^ b \<le> x \<Longrightarrow> 1 \<le> x * 2 ^ binades_below_one b x"
proof (induction b arbitrary: x)
  case 0 then show ?case by simp
next
  case (Suc b)
  show ?case
  proof (cases "1 \<le> x")
    case True then show ?thesis by simp
  next
    case False
    from Suc.prems have "1 / 2 ^ b \<le> 2 * x" by (simp add: field_simps)
    from Suc.IH[OF this] False show ?thesis by (simp add: mult.assoc mult.left_commute)
  qed
qed

lemma round_double_nonneg: "0 \<le> round_double b x"
proof (cases "x \<le> 0")
  case True then show ?thesis by (simp add: round_double_def)
next
  case False
  define s where "s = 52 + binades_below_one b x"
  have "0 \<le> x * 2 ^ s" using False by simp
  then have "0 \<le> \<lfloor>x * 2 ^ s\<rfloor>" by simp
  with round_half_even_ge_floor[of "x * 2 ^ s"] have "0 \<le> round_half_even (x * 2 ^ s)" by linarith
  then show ?thesis using False by (simp add: round_double_def s_def Let_def)
qed

lemma round_double_pos:
  assumes "1 / 2 ^ b \<le> x"
  shows "0 < round_double b x"
proof -
  have x: "0 < x" using assms by (meson divide_pos_pos less_le_trans zero_less_numeral zero_less_one zero_less_power)
  define j where "j = binades_below_one b x"
  define s where "s = 52 + j"
  have one: "1 \<le> x * 2 ^ j" unfolding j_def by (rule binades_reach_one[OF assms])
  have "(1::rat) \<le> 2 ^ 52" by (rule one_le_power) simp
  with one have "1 * 1 \<le> (x * 2 ^ j) * 2 ^ 52" by (intro mult_mono) simp_all
  moreover have "x * 2 ^ s = (x * 2 ^ j) * 2 ^ 52" by (simp only: s_def power_add mult_ac)
  ultimately have "1 \<le> x * 2 ^ s" by (simp only: mult_1)
  then have "1 \<le> \<lfloor>x * 2 ^ s\<rfloor>" by simp
  with round_half_even_ge_floor[of "x * 2 ^ s"] have "0 < round_half_even (x * 2 ^ s)" by linarith
  then show ?thesis using x by (simp add: round_double_def s_def j_def Let_def)
qed

lemma round_double_nonpos: "x \<le> 0 \<Longrightarrow> round_double b x = 0"
  by (simp add: round_double_def)

lemma round_double_le_one: "x \<le> 1 \<Longrightarrow> round_double b x \<le> 1"
proof (cases "x \<le> 0")
  case True then show ?thesis by (simp add: round_double_def)
next
  case False
  assume x: "x \<le> 1"
  define s where "s = 52 + binades_below_one b x"
  have "x * 2 ^ s \<le> 1 * 2 ^ s" using x by (intro mult_right_mono) simp_all
  then have "x * 2 ^ s \<le> of_int (2 ^ s)" by simp
  then have "\<lceil>x * 2 ^ s\<rceil> \<le> 2 ^ s" by (simp only: ceiling_le_iff)
  with round_half_even_le_ceiling[of "x * 2 ^ s"] have "round_half_even (x * 2 ^ s) \<le> 2 ^ s" by linarith
  then have "(of_int (round_half_even (x * 2 ^ s)) :: rat) \<le> of_int (2 ^ s)" by (simp only: of_int_le_iff)
  then have "of_int (round_half_even (x * 2 ^ s)) / 2 ^ s \<le> (1::rat)" by (simp add: divide_le_eq)
  then show ?thesis using False by (simp only: round_double_def s_def Let_def if_False)
qed

lemma round_double_le_three_halves: "x \<le> 3 / 2 \<Longrightarrow> round_double b x \<le> 3 / 2"
proof (cases "x \<le> 0")
  case True then show ?thesis by (simp add: round_double_def)
next
  case False
  assume x: "x \<le> 3 / 2"
  define j where "j = binades_below_one b x"
  define s where "s = 52 + j"
  define h where "h = 51 + j"
  have sh: "s = Suc h" by (simp add: s_def h_def)
  have "x * 2 ^ s \<le> (3 / 2) * 2 ^ s" using x by (intro mult_right_mono) simp_all
  also have "\<dots> = of_int (3 * 2 ^ h)" by (simp add: sh)
  finally have "\<lceil>x * 2 ^ s\<rceil> \<le> 3 * 2 ^ h" by (simp only: ceiling_le_iff)
  with round_half_even_le_ceiling[of "x * 2 ^ s"]
  have "round_half_even (x * 2 ^ s) \<le> 3 * 2 ^ h" by linarith
  then have "(of_int (round_half_even (x * 2 ^ s)) :: rat) \<le> of_int (3 * 2 ^ h)"
    by (simp only: of_int_le_iff)
  also have "(of_int (3 * 2 ^ h) :: rat) = (3 / 2) * 2 ^ s" by (simp add: sh)
  finally have "of_int (round_half_even (x * 2 ^ s)) / 2 ^ s \<le> (3 / 2 :: rat)"
    by (simp add: divide_le_eq)
  then show ?thesis using False by (simp only: round_double_def s_def j_def Let_def if_False)
qed

lemma round_double_error: "0 \<le> x \<Longrightarrow> \<bar>round_double b x - x\<bar> \<le> 1 / 2 ^ 53"
proof (cases "x \<le> 0")
  case True
  assume "0 \<le> x" with True have "x = 0" by simp
  then show ?thesis by (simp add: round_double_def)
next
  case False
  define j where "j = binades_below_one b x"
  define s where "s = 52 + j"
  define r where "r = (of_int (round_half_even (x * 2 ^ s)) :: rat)"
  have pos: "(0::rat) < 2 ^ s" by simp
  have ss: "Suc s = 53 + j" by (simp add: s_def)
  have e: "\<bar>r - x * 2 ^ s\<bar> \<le> 1 / 2" unfolding r_def by (rule round_half_even_error)
  have "r / 2 ^ s - x = (r - x * 2 ^ s) / 2 ^ s" using pos by (simp add: diff_divide_distrib)
  then have "\<bar>r / 2 ^ s - x\<bar> = \<bar>r - x * 2 ^ s\<bar> / 2 ^ s" using pos by (simp only: abs_divide abs_of_pos)
  also have "\<dots> \<le> (1 / 2) / 2 ^ s" using e pos by (intro divide_right_mono) simp_all
  also have "\<dots> = 1 / 2 ^ Suc s" by simp
  also have "\<dots> \<le> 1 / 2 ^ 53"
  proof -
    have "(2::rat) ^ 53 \<le> 2 ^ Suc s" unfolding ss by (rule power_increasing) simp_all
    then show ?thesis by (intro frac_le) simp_all
  qed
  finally have "\<bar>r / 2 ^ s - x\<bar> \<le> 1 / 2 ^ 53" .
  moreover have "round_double b x = r / 2 ^ s"
    using False by (simp only: round_double_def s_def j_def r_def Let_def if_False)
  ultimately show ?thesis by simp
qed

lemma quotient_ge_binade:
  assumes "0 < k" and "0 < n"
  shows "(1::rat) / 2 ^ n \<le> of_nat k / of_nat n"
proof -
  have "n < 2 ^ n" by (rule less_exp)
  then have "(of_nat n :: rat) < of_nat (2 ^ n)" by (simp only: of_nat_less_iff)
  then have "(of_nat n :: rat) \<le> 2 ^ n" by simp
  then have "(1::rat) / 2 ^ n \<le> 1 / of_nat n" using assms(2) by (intro frac_le) simp_all
  also have "\<dots> \<le> of_nat k / of_nat n" using assms by (intro divide_right_mono) simp_all
  finally show ?thesis .
qed

lemma base_quality_bounds: "0 \<le> base_quality kws text_lower \<and> base_quality kws text_lower \<le> 1"
proof (cases "kws = []")
  case True then show ?thesis by (simp add: base_quality_def)
next
  case False
  then have "0 < (of_nat (length kws) :: rat)" by simp
  moreover have "(of_nat (match_count kws text_lower) :: rat) \<le> of_nat (length kws)"
    using match_count_le[of kws text_lower] by (simp only: of_nat_le_iff)
  ultimately have "(of_nat (match_count kws text_lower) :: rat) / of_nat (length kws) \<le> 1"
    by (simp add: divide_le_eq)
  then show ?thesis
    using False by (simp add: base_quality_def round_double_nonneg round_double_le_one)
qed

lemma base_quality_pos: "0 < base_quality kws text_lower \<longleftrightarrow> 0 < match_count kws text_lower"
proof (cases "kws = []")
  case True then show ?thesis by (simp add: base_quality_def match_count_def)
next
  case False
  show ?thesis
  proof (cases "0 < match_count kws text_lower")
    case True
    from quotient_ge_binade[OF True, of "length kws"] False
    have "0 < round_double (length kws)
                (of_nat (match_count kws text_lower) / of_nat (length kws))"
      by (intro round_double_pos) simp
    with True False show ?thesis by (simp add: base_quality_def)
  next
    case False
    then show ?thesis using \<open>kws \<noteq> []\<close> by (simp add: base_quality_def round_double_nonpos)
  qed
qed

lemma mq_to_match: "mq (to_match kws v) = match_quality kws (ftext v)"
  by (simp add: mq_def to_match_def)

text \<open>
  Claim C8, as the code has it. The quality of a fragment is the number of key words that
  hit its lower-cased text divided by the number of key words (0 when the name has no key
  word), plus 0.5 exactly when at least one key word hits and the positions of the matched
  key words (the full word, or its 4-character prefix when the full word is absent) are
  strictly increasing in schema order; quotient and sum are floating-point operations,
  each rounded to the nearest double, so the quality is within \<open>1 / 2 ^ 52\<close> of the exact
  value of that formula. A key word hits exactly when it has a position. The quality lies
  between 0 and 1.5, and the label matches are the fragments of quality at least 0.5.
\<close>

theorem match_quality_formula:
  "match_quality kws t =
      (let q = (if kws = [] then 0
                else round_double (length kws)
                       (of_nat (match_count kws (lower t)) / of_nat (length kws)))
       in if 0 < match_count kws (lower t) \<and> spec_positions_increasing kws (lower t)
          then round_double 1 (q + 1 / 2) else q)
   \<and> \<bar>match_quality kws t
        - ((if kws = [] then 0 else of_nat (match_count kws (lower t)) / of_nat (length kws))
           + (if 0 < match_count kws (lower t) \<and> spec_positions_increasing kws (lower t)
              then 1 / 2 else 0))\<bar> \<le> 1 / 2 ^ 52
   \<and> 0 \<le> match_quality kws t \<and> match_quality kws t \<le> 3 / 2
   \<and> (\<forall>w. word_hit (lower t) w \<longleftrightarrow> 0 \<le> word_pos (lower t) w)
   \<and> (\<forall>m. m \<in> set (item_matches kws items) \<longleftrightarrow>
          (\<exists>v \<in> set items. m = to_match kws v \<and> 1 / 2 \<le> match_quality kws (ftext v)))"
proof -
  define k where "k = match_count kws (lower t)"
  define n where "n = length kws"
  define e :: rat where "e = (if kws = [] then 0 else of_nat k / of_nat n)"
  define q where "q = base_quality kws (lower t)"
  define bonus where "bonus \<longleftrightarrow> 0 < k \<and> spec_positions_increasing kws (lower t)"
  have q: "q = (if kws = [] then 0 else round_double n (of_nat k / of_nat n))"
    by (simp add: q_def base_quality_def k_def n_def)
  have c: "in_order kws (lower t) \<and> 0 < q \<longleftrightarrow> bonus"
    by (auto simp: bonus_def q_def k_def in_order_increasing base_quality_pos)
  have m: "match_quality kws t = (if bonus then round_double 1 (q + 1 / 2) else q)"
    using c by (simp add: match_quality_def Let_def q_def)
  have e0: "0 \<le> e"
    by (simp add: e_def)
  have qb: "0 \<le> q" "q \<le> 1"
    using base_quality_bounds[of kws "lower t"] by (simp_all add: q_def)
  have qe: "\<bar>q - e\<bar> \<le> 1 / 2 ^ 53"
  proof (cases "kws = []")
    case True then show ?thesis by (simp add: q e_def)
  next
    case False
    have "0 \<le> (of_nat k :: rat) / of_nat n" by simp
    from round_double_error[OF this, of n] False show ?thesis by (simp add: q e_def)
  qed
  have 1: "match_quality kws t =
      (let q = (if kws = [] then 0
                else round_double (length kws)
                       (of_nat (match_count kws (lower t)) / of_nat (length kws)))
       in if 0 < match_count kws (lower t) \<and> spec_positions_increasing kws (lower t)
          then round_double 1 (q + 1 / 2) else q)"
    unfolding Let_def using m by (simp only: q bonus_def k_def n_def)
  have 2: "\<bar>match_quality kws t - (e + (if bonus then 1 / 2 else 0))\<bar> \<le> 1 / 2 ^ 52"
  proof (cases bonus)
    case True
    have "0 \<le> q + 1 / 2" using qb by simp
    from round_double_error[OF this, of 1]
    have "\<bar>round_double 1 (q + 1 / 2) - (q + 1 / 2)\<bar> \<le> 1 / 2 ^ 53" .
    with qe have "\<bar>round_double 1 (q + 1 / 2) - (e + 1 / 2)\<bar> \<le> 1 / 2 ^ 53 + 1 / 2 ^ 53"
      by linarith
    also have "(1::rat) / 2 ^ 53 + 1 / 2 ^ 53 = 1 / 2 ^ 52" by simp
    finally show ?thesis using True by (simp add: m)
  next
    case False
    have "(1::rat) / 2 ^ 53 \<le> 1 / 2 ^ 52" by simp
    with qe have "\<bar>q - e\<bar> \<le> 1 / 2 ^ 52" by linarith
    then show ?thesis using False by (simp add: m)
  qed
  have 3: "0 \<le> match_quality kws t \<and> match_quality kws t \<le> 3 / 2"
  proof (cases bonus)
    case True
    have "q + 1 / 2 \<le> 3 / 2" using qb by simp
    from round_double_le_three_halves[OF this, of 1] round_double_nonneg[of 1 "q + 1 / 2"] True
    show ?thesis by (simp add: m)
  next
    case False
    then show ?thesis using qb by (simp add: m)
  qed
  have 4: "\<forall>w. word_hit (lower t) w \<longleftrightarrow> 0 \<le> word_pos (lower t) w"
    by (simp add: word_pos_hit)
  have 5: "\<forall>m. m \<in> set (item_matches kws items) \<longleftrightarrow>
          (\<exists>v \<in> set items. m = to_match kws v \<and> 1 / 2 \<le> match_quality kws (ftext v))"
    by (auto simp: item_matches_def mq_to_match)
  from 1 2[unfolded e_def bonus_def k_def n_def] 3 4 5 show ?thesis by blast
qed

text \<open>
  Two fragments for the key words \<open>plastic\<close>, \<open>bottles\<close>, one out of order and one in order,
  and a name of three key words, of which one hits: the quality is the double nearest to
  \<open>1 / 3\<close> plus one half, rounded again.
\<close>

theorem match_quality_formula_witness:
  "match_quality [''plastic'', ''bottles''] ''Bottles of PLASTIC'' = 1
   \<and> match_count [''plastic'', ''bottles''] (lower ''Bottles of PLASTIC'') = 2
   \<and> spec_matched_positions [''plastic'', ''bottles''] (lower ''Bottles of PLASTIC'') = [11, 0]
   \<and> match_quality [''plastic'', ''bottles''] ''Plastik bott.'' = 3 / 2
   \<and> spec_matched_positions [''plastic'', ''bottles''] (lower ''Plastik bott.'') = [0, 8]
   \<and> item_matches [''plastic'', ''bottles''] [frag ''Plastik bott.'' (9 / 10) 10 10, frag ''=4'' (9 / 10) 150 10]
       = [(''Plastik bott.'', 10, 10, 9 / 10, 3 / 2)]
   \<and> match_quality [''plastic'', ''bottle'', ''caps''] ''plastic'' = 7505999378950826 / 2 ^ 53
   \<and> \<bar>match_quality [''plastic'', ''bottle'', ''caps''] ''plastic'' - (1 / 3 + 1 / 2)\<bar> \<le> 1 / 2 ^ 52"
proof -
  have a: "match_count [''plastic'', ''bottles''] (lower ''Bottles of PLASTIC'') = 2" by code_simp
  have b: "spec_matched_positions [''plastic'', ''bottles''] (lower ''Bottles of PLASTIC'') = [11, 0]"
    by code_simp
  have d: "spec_matched_positions [''plastic'', ''bottles''] (lower ''Plastik bott.'') = [0, 8]"
    by code_simp
  have e: "item_matches [''plastic'', ''bottles''] [frag ''Plastik bott.'' (9 / 10) 10 10, frag ''=4'' (9 / 10) 150 10]
       = [(''Plastik bott.'', 10, 10, 9 / 10, 3 / 2)]" by code_simp
  have f: "match_quality [''plastic'', ''bottles''] ''Bottles of PLASTIC'' = 1" by code_simp
  have g: "match_quality [''plastic'', ''bottles''] ''Plastik bott.'' = 3 / 2" by code_simp
  have h: "match_quality [''plastic'', ''bottle'', ''caps''] ''plastic'' = 7505999378950826 / 2 ^ 53"
    by code_simp
  have k: "match_count [''plastic'', ''bottle'', ''caps''] (lower ''plastic'') = 1" by code_simp
  have i: "spec_positions_increasing [''plastic'', ''bottle'', ''caps''] (lower ''plastic'')"
    by code_simp
  let ?K = "[''plastic'', ''bottle'', ''caps'']"
  let ?exact = "(if ?K = [] then 0
                 else of_nat (match_count ?K (lower ''plastic'')) / of_nat (length ?K))
                + (if 0 < match_count ?K (lower ''plastic'')
                      \<and> spec_positions_increasing ?K (lower ''plastic'')
                   then 1 / 2 else 0 :: rat)"
  have w: "\<bar>match_quality ?K ''plastic'' - ?exact\<bar> \<le> 1 / 2 ^ 52"
    using match_quality_formula[of ?K "''plastic''" "[]"] by blast
  have x: "?exact = 1 / 3 + 1 / 2" by (simp add: k i)
  have "\<bar>match_quality ?K ''plastic'' - (1 / 3 + 1 / 2)\<bar> \<le> 1 / 2 ^ 52"
    using w unfolding x .
  with a b d e f g h show ?thesis by blast
qed

text \<open>
  Claim C8 as stated fails on a fragment that no key word hits: every matched position is
  then increasing, so the stated quality is 0.5 and the fragment would be kept, while the
  code gives quality 0 and drops it.
\<close>

theorem order_bonus_without_hit_counterexample:
  "match_count (key_words ''cans'') (lower ''hello'') = 0
   \<and> spec_positions_increasing (key_words ''cans'') (lower ''hello'')
   \<and> spec_quality (key_words ''cans'') ''hello'' = 1 / 2
   \<and> match_quality (key_words ''cans'') ''hello'' = 0
   \<and> match_quality (key_words ''cans'') ''hello'' \<noteq> spec_quality (key_words ''cans'') ''hello''
   \<and> item_matches (key_words ''cans'') [frag ''hello'' (9 / 10) 10 10] = []"
  by code_simp

subsection \<open>The anchor\<close>

lemma hd_insort_key: "hd (insort_key k x ys) = (if ys = [] \<or> k x \<le> k (hd ys) then x else hd ys)"
  by (cases ys) auto

lemma sort_key_hd_first_min:
  "xs \<noteq> [] \<Longrightarrow> \<exists>pre post. xs = pre @ hd (sort_key k xs) # post
      \<and> (\<forall>m \<in> set pre. k (hd (sort_key k xs)) < k m)
      \<and> (\<forall>m \<in> set post. k (hd (sort_key k xs)) \<le> k m)"
proof (induction xs)
  case Nil then show ?case by simp
next
  case (Cons x xs)
  show ?case
  proof (cases "xs = []")
    case True
    then have "x # xs = [] @ hd (sort_key k (x # xs)) # []" by simp
    then show ?thesis by (metis empty_iff empty_set)
  next
    case False
    let ?a = "hd (sort_key k xs)"
    from Cons.IH[OF False] obtain pre post where
      xs: "xs = pre @ ?a # post" and pre: "\<forall>m \<in> set pre. k ?a < k m"
      and post: "\<forall>m \<in> set post. k ?a \<le> k m" by blast
    have ne: "sort_key k xs \<noteq> []" using False by (metis length_0_conv length_sort)
    show ?thesis
    proof (cases "k x \<le> k ?a")
      case True
      then have h: "hd (sort_key k (x # xs)) = x" by (simp add: hd_insort_key)
      have "\<forall>m \<in> set xs. k ?a \<le> k m"
      proof
        fix m assume "m \<in> set xs"
        then have "m \<in> set pre \<or> m = ?a \<or> m \<in> set post" by (subst (asm) xs) auto
        then show "k ?a \<le> k m" using pre post by auto
      qed
      with True have "\<forall>m \<in> set xs. k x \<le> k m" by auto
      then have "x # xs = [] @ x # xs \<and> (\<forall>m \<in> set []. k x < k m) \<and> (\<forall>m \<in> set xs. k x \<le> k m)"
        by simp
      then show ?thesis unfolding h by blast
    next
      case False
      then have h: "hd (sort_key k (x # xs)) = ?a" using ne by (simp add: hd_insort_key)
      have "x # xs = (x # pre) @ ?a # post" using xs by simp
      moreover have "\<forall>m \<in> set (x # pre). k ?a < k m" using pre False by auto
      ultimately show ?thesis unfolding h using post by blast
    qed
  qed
qed

lemma filter_eq_append_Cons:
  "filter P ys = us @ a # vs \<Longrightarrow>
     \<exists>ys1 ys2. ys = ys1 @ a # ys2 \<and> filter P ys1 = us \<and> filter P ys2 = vs \<and> P a"
proof (induction ys arbitrary: us)
  case Nil then show ?case by simp
next
  case (Cons y ys)
  show ?case
  proof (cases "P y")
    case False
    with Cons.prems have "filter P ys = us @ a # vs" by simp
    from Cons.IH[OF this] obtain ys1 ys2 where
      "ys = ys1 @ a # ys2" "filter P ys1 = us" "filter P ys2 = vs" "P a" by blast
    then have "y # ys = (y # ys1) @ a # ys2 \<and> filter P (y # ys1) = us \<and> filter P ys2 = vs \<and> P a"
      using False by simp
    then show ?thesis by blast
  next
    case True
    show ?thesis
    proof (cases us)
      case Nil
      with Cons.prems True have "y = a" "filter P ys = vs" by simp_all
      then have "y # ys = [] @ a # ys \<and> filter P [] = us \<and> filter P ys = vs \<and> P a"
        using True Nil by simp
      then show ?thesis by blast
    next
      case (Cons u us')
      with Cons.prems True have "y = u" "filter P ys = us' @ a # vs" by simp_all
      from Cons.IH[OF this(2)] obtain ys1 ys2 where
        "ys = ys1 @ a # ys2" "filter P ys1 = us'" "filter P ys2 = vs" "P a" by blast
      then have "y # ys = (y # ys1) @ a # ys2 \<and> filter P (y # ys1) = us \<and> filter P ys2 = vs \<and> P a"
        using True Cons \<open>y = u\<close> by simp
      then show ?thesis by blast
    qed
  qed
qed

lemma anchor_first_best:
  assumes "anchor kws items = Some a"
  shows "\<exists>pre w post. items = pre @ w # post \<and> a = to_match kws w \<and> 1 / 2 \<le> mq a
           \<and> (\<forall>v \<in> set pre. match_quality kws (ftext v) < mq a)
           \<and> (\<forall>v \<in> set post. match_quality kws (ftext v) \<le> mq a)"
proof -
  let ?P = "\<lambda>m. 1 / 2 \<le> mq m"
  let ?ms = "item_matches kws items"
  let ?k = "\<lambda>m. - mq m"
  from assms have ne: "?ms \<noteq> []" and a: "a = hd (sort_key ?k ?ms)"
    by (auto simp: anchor_def sort_matches_def split: list.splits)
  from sort_key_hd_first_min[OF ne, of ?k] a obtain us vs where
    ms: "?ms = us @ a # vs" and us: "\<forall>m \<in> set us. mq m < mq a" and vs: "\<forall>m \<in> set vs. mq m \<le> mq a"
    by auto
  from ms have "filter ?P (map (to_match kws) items) = us @ a # vs" by (simp add: item_matches_def)
  from filter_eq_append_Cons[OF this] obtain ys1 ys2 where
    ys: "map (to_match kws) items = ys1 @ a # ys2" and f1: "filter ?P ys1 = us"
    and f2: "filter ?P ys2 = vs" and Pa: "?P a" by blast
  from ys obtain pre w post where
    items: "items = pre @ w # post" and m1: "map (to_match kws) pre = ys1"
    and w: "to_match kws w = a" and m2: "map (to_match kws) post = ys2"
    by (auto simp: map_eq_append_conv map_eq_Cons_conv)
  have pre: "\<forall>v \<in> set pre. match_quality kws (ftext v) < mq a"
  proof
    fix v assume v: "v \<in> set pre"
    show "match_quality kws (ftext v) < mq a"
    proof (cases "?P (to_match kws v)")
      case True
      with v m1 f1 have "to_match kws v \<in> set us" by auto
      with us show ?thesis by (auto simp: mq_to_match)
    next
      case False
      with Pa show ?thesis by (simp add: mq_to_match)
    qed
  qed
  have post: "\<forall>v \<in> set post. match_quality kws (ftext v) \<le> mq a"
  proof
    fix v assume v: "v \<in> set post"
    show "match_quality kws (ftext v) \<le> mq a"
    proof (cases "?P (to_match kws v)")
      case True
      with v m2 f2 have "to_match kws v \<in> set vs" by auto
      with vs show ?thesis by (auto simp: mq_to_match)
    next
      case False
      with Pa show ?thesis by (simp add: mq_to_match)
    qed
  qed
  from items w Pa pre post show ?thesis by blast
qed

lemma sorted_results_sorted_input:
  "sorted (map (\<lambda>x. (y_min x, x_min x)) frs) \<Longrightarrow> sorted_results frs = frs"
  unfolding sorted_results_def by (rule sort_key_id_if_sorted)

lemma anchor_None_iff:
  "anchor kws items = None \<longleftrightarrow> (\<forall>v \<in> set items. match_quality kws (ftext v) < 1 / 2)"
proof -
  have "anchor kws items = None \<longleftrightarrow> sort_matches (item_matches kws items) = []"
    by (simp add: anchor_def split: list.splits)
  also have "\<dots> \<longleftrightarrow> item_matches kws items = []"
    unfolding sort_matches_def by (metis length_0_conv length_sort)
  also have "\<dots> \<longleftrightarrow> (\<forall>v \<in> set items. match_quality kws (ftext v) < 1 / 2)"
    by (auto simp: item_matches_def filter_empty_conv mq_to_match not_le)
  finally show ?thesis .
qed

lemma set_sorted_results: "set (sorted_results frs) = set frs"
  by (simp add: sorted_results_def)

text \<open>
  Claim C9, as the code has it. Whenever some fragment reaches quality 0.5 an anchor is
  selected, and it is the first fragment of best match quality in the list that
  \<^verbatim>\<open>_find_item_count\<close> receives, which is the input of \<^verbatim>\<open>extract_field_counts\<close> after
  its stable sort by \<open>(y_min, x_min)\<close>: every fragment before the anchor in that list has a
  strictly lower quality and every fragment after it has no higher one. No anchor is
  selected only when no fragment reaches 0.5. The list is the input itself when the input
  is already in that order. Qualities are compared as the floating-point values the code
  computes.
\<close>

theorem anchor_first_best_in_sorted_order:
  "((\<exists>v \<in> set frs. 1 / 2 \<le> match_quality (key_words f) (ftext v)) \<longrightarrow>
      (\<exists>a pre w post. anchor (key_words f) (sorted_results frs) = Some a
          \<and> sorted_results frs = pre @ w # post \<and> a = to_match (key_words f) w
          \<and> 1 / 2 \<le> mq a
          \<and> (\<forall>v \<in> set pre. match_quality (key_words f) (ftext v) < mq a)
          \<and> (\<forall>v \<in> set post. match_quality (key_words f) (ftext v) \<le> mq a)))
   \<and> (anchor (key_words f) (sorted_results frs) = None \<longleftrightarrow>
        (\<forall>v \<in> set frs. match_quality (key_words f) (ftext v) < 1 / 2))
   \<and> (sorted (map (\<lambda>x. (y_min x, x_min x)) frs) \<longrightarrow> sorted_results frs = frs)"
proof -
  have 1: "(\<exists>v \<in> set frs. 1 / 2 \<le> match_quality (key_words f) (ftext v)) \<longrightarrow>
      (\<exists>a pre w post. anchor (key_words f) (sorted_results frs) = Some a
          \<and> sorted_results frs = pre @ w # post \<and> a = to_match (key_words f) w
          \<and> 1 / 2 \<le> mq a
          \<and> (\<forall>v \<in> set pre. match_quality (key_words f) (ftext v) < mq a)
          \<and> (\<forall>v \<in> set post. match_quality (key_words f) (ftext v) \<le> mq a))"
  proof
    assume "\<exists>v \<in> set frs. 1 / 2 \<le> match_quality (key_words f) (ftext v)"
    then have "\<not> (\<forall>v \<in> set (sorted_results frs). match_quality (key_words f) (ftext v) < 1 / 2)"
      by (auto simp: set_sorted_results not_less)
    then have "anchor (key_words f) (sorted_results frs) \<noteq> None"
      by (simp only: anchor_None_iff not_False_eq_True)
    then obtain a where a: "anchor (key_words f) (sorted_results frs) = Some a" by blast
    from anchor_first_best[OF a] a
    show "\<exists>a pre w post. anchor (key_words f) (sorted_results frs) = Some a
          \<and> sorted_results frs = pre @ w # post \<and> a = to_match (key_words f) w
          \<and> 1 / 2 \<le> mq a
          \<and> (\<forall>v \<in> set pre. match_quality (key_words f) (ftext v) < mq a)
          \<and> (\<forall>v \<in> set post. match_quality (key_words f) (ftext v) \<le> mq a)"
      by blast
  qed
  have 2: "anchor (key_words f) (sorted_results frs) = None \<longleftrightarrow>
        (\<forall>v \<in> set frs. match_quality (key_words f) (ftext v) < 1 / 2)"
    by (simp add: anchor_None_iff set_sorted_results)
  have 3: "sorted (map (\<lambda>x. (y_min x, x_min x)) frs) \<longrightarrow> sorted_results frs = frs"
    using sorted_results_sorted_input[of frs] by blast
  from 1 2 3 show ?thesis by blast
qed

text \<open>
  Two fragments of equal quality, already sorted by position: the first is the anchor.
  And two fragments whose qualities are equal as exact numbers, \<open>2 / 6 + 1 / 2\<close> and
  \<open>5 / 6\<close>, but not as doubles: the second is the anchor.
\<close>

theorem anchor_first_best_in_sorted_order_witness:
  "match_quality (key_words ''cans'') (ftext (tie_sorted ! 0)) = 3 / 2
   \<and> match_quality (key_words ''cans'') (ftext (tie_sorted ! 1)) = 3 / 2
   \<and> sorted_results tie_sorted = tie_sorted
   \<and> anchor (key_words ''cans'') (sorted_results tie_sorted) = Some (''cans'', 10, 10, 9 / 10, 3 / 2)
   \<and> (\<exists>a pre w post. anchor (key_words ''cans'') (sorted_results tie_sorted) = Some a
         \<and> sorted_results tie_sorted = pre @ w # post \<and> a = to_match (key_words ''cans'') w
         \<and> 1 / 2 \<le> mq a
         \<and> (\<forall>v \<in> set pre. match_quality (key_words ''cans'') (ftext v) < mq a)
         \<and> (\<forall>v \<in> set post. match_quality (key_words ''cans'') (ftext v) \<le> mq a))
   \<and> match_quality (key_words materials) (ftext (near_tie ! 0)) = 7505999378950826 / 2 ^ 53
   \<and> match_quality (key_words materials) (ftext (near_tie ! 1)) = 7505999378950827 / 2 ^ 53
   \<and> anchor (key_words materials) (sorted_results near_tie)
       = Some (''plastic paper metal glass rubber'', 10, 50, 8 / 10, 7505999378950827 / 2 ^ 53)"
proof -
  have a: "match_quality (key_words ''cans'') (ftext (tie_sorted ! 0)) = 3 / 2" by code_simp
  have b: "match_quality (key_words ''cans'') (ftext (tie_sorted ! 1)) = 3 / 2" by code_simp
  have c: "sorted (map (\<lambda>x. (y_min x, x_min x)) tie_sorted)" by code_simp
  have d: "anchor (key_words ''cans'') (sorted_results tie_sorted)
             = Some (''cans'', 10, 10, 9 / 10, 3 / 2)" by code_simp
  have e: "tie_sorted ! 0 \<in> set tie_sorted" by code_simp
  have g: "match_quality (key_words materials) (ftext (near_tie ! 0)) = 7505999378950826 / 2 ^ 53"
    by code_simp
  have h: "match_quality (key_words materials) (ftext (near_tie ! 1)) = 7505999378950827 / 2 ^ 53"
    by code_simp
  have i: "anchor (key_words materials) (sorted_results near_tie)
       = Some (''plastic paper metal glass rubber'', 10, 50, 8 / 10, 7505999378950827 / 2 ^ 53)"
    by code_simp
  have "\<exists>v \<in> set tie_sorted. 1 / 2 \<le> match_quality (key_words ''cans'') (ftext v)"
    using a e by (intro bexI[of _ "tie_sorted ! 0"]) simp_all
  with anchor_first_best_in_sorted_order[of tie_sorted "''cans''"] c
  have "(\<exists>a pre w post. anchor (key_words ''cans'') (sorted_results tie_sorted) = Some a
         \<and> sorted_results tie_sorted = pre @ w # post \<and> a = to_match (key_words ''cans'') w
         \<and> 1 / 2 \<le> mq a
         \<and> (\<forall>v \<in> set pre. match_quality (key_words ''cans'') (ftext v) < mq a)
         \<and> (\<forall>v \<in> set post. match_quality (key_words ''cans'') (ftext v) \<le> mq a))"
    and "sorted_results tie_sorted = tie_sorted"
    by blast+
  with a b d g h i show ?thesis by blast
qed

text \<open>
  Claim C9 as stated fails on an input that is not sorted by position: both \<open>cans\<close>
  fragments have quality 1.5, the first of them in input order lies lower on the page, and
  the anchor is the other one, whose count 7 is the result.
\<close>

theorem anchor_not_first_in_input_counterexample:
  "match_quality (key_words ''cans'') (ftext (tie_unsorted ! 0)) = 3 / 2
   \<and> match_quality (key_words ''cans'') (ftext (tie_unsorted ! 2)) = 3 / 2
   \<and> anchor (key_words ''cans'') tie_unsorted = Some (to_match (key_words ''cans'') (tie_unsorted ! 0))
   \<and> anchor (key_words ''cans'') (sorted_results tie_unsorted)
       = Some (to_match (key_words ''cans'') (tie_unsorted ! 2))
   \<and> to_match (key_words ''cans'') (tie_unsorted ! 2) \<noteq> to_match (key_words ''cans'') (tie_unsorted ! 0)
   \<and> lookup_field (extract_field_counts tie_unsorted metal_schema) ''Metal'' ''cans''
       = Some \<lparr>val = Some 7, conf = Some (7 / 10)\<rparr>"
  by code_simp

subsection \<open>The embedded count\<close>

lemma last_keyword_loop_less:
  "p > last_keyword_loop s ws acc \<longleftrightarrow> p > acc \<and> (\<forall>w \<in> set ws. p > rfind_str s w)"
  by (induction ws arbitrary: acc) (auto simp: Let_def)

lemma embedded_count_iff:
  "embedded_count kws t = Some n \<longleftrightarrow>
     (\<exists>p. re_search t = Some (p, n) \<and> (\<forall>w \<in> set kws. rfind_str (lower t) w < int p))"
  by (auto simp: embedded_count_def last_keyword_pos_def last_keyword_loop_less
      split: option.splits prod.splits)

lemma find_item_count_embedded:
  "anchor (key_words f) items = Some (t, x, y, c, q) \<Longrightarrow> embedded_count (key_words f) t = Some n \<Longrightarrow>
   find_item_count f items names = (n, c)"
  by (simp add: find_item_count_def)

text \<open>
  Claim C5 at a label that OCR has garbled. Both key words of \<open>Plastic bottles\<close> match the
  fragment through their 4-character prefixes only, the prefix \<open>bott\<close> occurs at position
  11, and the number starts at position 0, before it. The position check of lines 300-304
  looks for whole key words only, finds none, and accepts the number.
\<close>

theorem embedded_count_ignores_prefix_occurrence:
  "key_words ''Plastic bottles'' = [''plastic'', ''bottles'']
   \<and> match_quality (key_words ''Plastic bottles'') ''=5 plastix bottlez'' = 3 / 2
   \<and> word_pos (lower ''=5 plastix bottlez'') ''bottles'' = 11
   \<and> rfind_str (lower ''=5 plastix bottlez'') (take 4 ''bottles'') = 11
   \<and> re_search ''=5 plastix bottlez'' = Some (0, 5)
   \<and> last_keyword_pos (key_words ''Plastic bottles'') ''=5 plastix bottlez'' = - 1
   \<and> embedded_count (key_words ''Plastic bottles'') ''=5 plastix bottlez'' = Some 5
   \<and> find_item_count ''Plastic bottles'' [frag ''=5 plastix bottlez'' (92 / 100) 10 10]
        [''Plastic bottles''] = (5, 92 / 100)"
  by code_simp

subsection \<open>The spatial linker\<close>

lemma link_step_skip:
  "\<not> candidate f names items lx ly v \<Longrightarrow> link_step f names items lx ly b v = b"
  by (auto simp: link_step_def candidate_def split: option.splits prod.splits)

lemma link_step_take:
  assumes "candidate f names items lx ly v" and "re_search (ftext v) = Some (s, n)"
  shows "link_step f names items lx ly b v =
     (case b of
        None \<Rightarrow> Some (n, confidence v, x_min v - lx)
      | Some (bc, bconf, bd) \<Rightarrow>
          if x_min v - lx < bd then Some (n, confidence v, x_min v - lx) else b)"
  using assms by (auto simp: link_step_def candidate_def split: option.splits prod.splits)

lemma link_inv_step:
  assumes "link_inv f names items lx ly seen b"
  shows "link_inv f names items lx ly (seen @ [v]) (link_step f names items lx ly b v)"
proof (cases "candidate f names items lx ly v")
  case False
  then show ?thesis using assms
    by (auto simp: link_step_skip link_inv_def split: option.splits)
next
  case True
  then obtain s n where sn: "re_search (ftext v) = Some (s, n)"
    by (auto simp: candidate_def)
  show ?thesis
  proof (cases b)
    case None
    with assms True sn show ?thesis
      by (auto simp: link_step_take[OF True sn] link_inv_def)
  next
    case (Some t)
    obtain bc bconf bd where t: "t = (bc, bconf, bd)" by (cases t)
    from assms Some t obtain w where w: "w \<in> set seen" "candidate f names items lx ly w"
      "\<exists>s. re_search (ftext w) = Some (s, bc)" "bconf = confidence w" "bd = x_min w - lx"
      "\<forall>v \<in> set seen. candidate f names items lx ly v \<longrightarrow> bd \<le> x_min v - lx"
      by (auto simp: link_inv_def)
    show ?thesis
    proof (cases "x_min v - lx < bd")
      case True
      have "link_step f names items lx ly b v = Some (n, confidence v, x_min v - lx)"
        using True Some t by (simp add: link_step_take[OF \<open>candidate f names items lx ly v\<close> sn])
      moreover have "\<forall>u \<in> set (seen @ [v]). candidate f names items lx ly u
                        \<longrightarrow> x_min v - lx \<le> x_min u - lx"
        using w(6) True by fastforce
      ultimately show ?thesis
        using \<open>candidate f names items lx ly v\<close> sn
        unfolding link_inv_def by (simp del: set_append) (metis in_set_conv_decomp)
    next
      case False
      have "link_step f names items lx ly b v = Some (bc, bconf, bd)"
        using False Some t by (simp add: link_step_take[OF \<open>candidate f names items lx ly v\<close> sn])
      moreover have "\<forall>u \<in> set (seen @ [v]). candidate f names items lx ly u
                        \<longrightarrow> bd \<le> x_min u - lx"
        using w(6) False by auto
      moreover have "w \<in> set (seen @ [v])" using w(1) by simp
      ultimately show ?thesis
        using w(2-5) unfolding link_inv_def by (simp del: set_append) blast
    qed
  qed
qed

lemma link_inv_loop:
  "link_inv f names items lx ly seen b \<Longrightarrow>
     link_inv f names items lx ly (seen @ scan) (link_loop f names items lx ly b scan)"
proof (induction scan arbitrary: seen b)
  case Nil then show ?case by simp
next
  case (Cons v scan)
  from Cons.IH[OF link_inv_step[OF Cons.prems, of v]] show ?case by simp
qed

lemma link_inv_result:
  "link_inv f names items lx ly scan (link_loop f names items lx ly None scan)"
  using link_inv_loop[of f names items lx ly "[]" None scan] by (simp add: link_inv_def)

lemma spatial_link_Some:
  assumes "spatial_link f names items lx ly = Some (n, c)"
  shows "\<exists>w \<in> set items. candidate f names items lx ly w
           \<and> (\<exists>s. re_search (ftext w) = Some (s, n)) \<and> c = confidence w
           \<and> (\<forall>v \<in> set items. candidate f names items lx ly v \<longrightarrow> x_min w - lx \<le> x_min v - lx)"
proof -
  from assms obtain d where "link_loop f names items lx ly None items = Some (n, c, d)"
    by (auto simp: spatial_link_def split: option.splits)
  with link_inv_result[of f names items lx ly items] show ?thesis
    by (auto simp: link_inv_def)
qed

lemma spatial_link_None:
  "spatial_link f names items lx ly = None \<longleftrightarrow> (\<forall>v \<in> set items. \<not> candidate f names items lx ly v)"
proof (cases "link_loop f names items lx ly None items")
  case None
  with link_inv_result[of f names items lx ly items] show ?thesis
    by (simp add: link_inv_def spatial_link_def)
next
  case (Some t)
  with link_inv_result[of f names items lx ly items] show ?thesis
    by (auto simp: link_inv_def spatial_link_def split: prod.splits)
qed

text \<open>
  Claim C6. A count returned by the spatial linker is the number of a fragment with
  \<open>0 < dx < 400\<close> and \<open>dy < 18\<close> that is not blocked, no candidate has a smaller \<open>dx\<close>,
  and the confidence returned is that fragment's own; the linker returns a count as soon
  as one candidate exists; and no fragment outside these bounds is a candidate.
\<close>

theorem spatial_link_nearest_right:
  "(\<forall>n c. spatial_link f names items lx ly = Some (n, c) \<longrightarrow>
      (\<exists>w \<in> set items. (\<exists>s. re_search (ftext w) = Some (s, n)) \<and> c = confidence w
          \<and> 0 < x_min w - lx \<and> x_min w - lx < 400 \<and> \<bar>y_min w - ly\<bar> < 18
          \<and> \<not> blocked f names items lx ly (x_min w)
          \<and> (\<forall>v \<in> set items. candidate f names items lx ly v \<longrightarrow> x_min w - lx \<le> x_min v - lx)))
   \<and> ((\<exists>v \<in> set items. candidate f names items lx ly v) \<longrightarrow> spatial_link f names items lx ly \<noteq> None)
   \<and> (\<forall>v. candidate f names items lx ly v \<longrightarrow>
         0 < x_min v - lx \<and> x_min v - lx < 400 \<and> \<bar>y_min v - ly\<bar> < 18)"
proof -
  have 1: "\<forall>n c. spatial_link f names items lx ly = Some (n, c) \<longrightarrow>
      (\<exists>w \<in> set items. (\<exists>s. re_search (ftext w) = Some (s, n)) \<and> c = confidence w
          \<and> 0 < x_min w - lx \<and> x_min w - lx < 400 \<and> \<bar>y_min w - ly\<bar> < 18
          \<and> \<not> blocked f names items lx ly (x_min w)
          \<and> (\<forall>v \<in> set items. candidate f names items lx ly v \<longrightarrow> x_min w - lx \<le> x_min v - lx))"
  proof (intro allI impI)
    fix n c assume "spatial_link f names items lx ly = Some (n, c)"
    from spatial_link_Some[OF this] obtain w where
      w: "w \<in> set items" "candidate f names items lx ly w"
         "\<exists>s. re_search (ftext w) = Some (s, n)" "c = confidence w"
         "\<forall>v \<in> set items. candidate f names items lx ly v \<longrightarrow> x_min w - lx \<le> x_min v - lx"
      by blast
    from w(2) have "0 < x_min w - lx \<and> x_min w - lx < 400 \<and> \<bar>y_min w - ly\<bar> < 18
        \<and> \<not> blocked f names items lx ly (x_min w)"
      by (simp add: candidate_def accepted_def Let_def)
    with w show "\<exists>w \<in> set items. (\<exists>s. re_search (ftext w) = Some (s, n)) \<and> c = confidence w
          \<and> 0 < x_min w - lx \<and> x_min w - lx < 400 \<and> \<bar>y_min w - ly\<bar> < 18
          \<and> \<not> blocked f names items lx ly (x_min w)
          \<and> (\<forall>v \<in> set items. candidate f names items lx ly v \<longrightarrow> x_min w - lx \<le> x_min v - lx)"
      by blast
  qed
  have 2: "(\<exists>v \<in> set items. candidate f names items lx ly v) \<longrightarrow> spatial_link f names items lx ly \<noteq> None"
    by (simp add: spatial_link_None)
  have 3: "\<forall>v. candidate f names items lx ly v \<longrightarrow>
         0 < x_min v - lx \<and> x_min v - lx < 400 \<and> \<bar>y_min v - ly\<bar> < 18"
    by (simp add: candidate_def accepted_def Let_def)
  from 1 2 3 show ?thesis by blast
qed

text \<open>
  A line with counts at \<open>dx = 20\<close>, \<open>dx = 50\<close> and \<open>dx = 401\<close>, and a line whose only count is
  at \<open>dx = 401\<close>.
\<close>

theorem spatial_link_nearest_right_witness:
  "spatial_link ''Cigarette butts'' [''Cigarette butts''] butts_line 10 10 = Some (12, 85 / 100)
   \<and> (\<exists>w \<in> set butts_line. (\<exists>s. re_search (ftext w) = Some (s, 12)) \<and> 85 / 100 = confidence w
          \<and> 0 < x_min w - 10 \<and> x_min w - 10 < 400 \<and> \<bar>y_min w - 10\<bar> < 18
          \<and> \<not> blocked ''Cigarette butts'' [''Cigarette butts''] butts_line 10 (10::int) (x_min w))
   \<and> spatial_link ''Cigarette butts'' [''Cigarette butts''] far_line 10 10 = None"
proof -
  have a: "spatial_link ''Cigarette butts'' [''Cigarette butts''] butts_line 10 10 = Some (12, 85 / 100)"
    by code_simp
  have b: "spatial_link ''Cigarette butts'' [''Cigarette butts''] far_line 10 10 = None"
    by code_simp
  from spatial_link_nearest_right[of "''Cigarette butts''" "[''Cigarette butts'']" butts_line 10 10] a
  have "\<exists>w \<in> set butts_line. (\<exists>s. re_search (ftext w) = Some (s, 12)) \<and> 85 / 100 = confidence w
          \<and> 0 < x_min w - 10 \<and> x_min w - 10 < 400 \<and> \<bar>y_min w - 10\<bar> < 18
          \<and> \<not> blocked ''Cigarette butts'' [''Cigarette butts''] butts_line 10 10 (x_min w)"
    by blast
  with a b show ?thesis by blast
qed

lemma blocked_iff:
  "blocked f names items lx ly x \<longleftrightarrow>
     (\<exists>other \<in> set names. other \<noteq> f
        \<and> (\<exists>chk \<in> set items. 7 / 10 \<le> other_match_quality other (lower (ftext chk))
              \<and> lx + 30 < x_min chk \<and> x_min chk < x - 30 \<and> \<bar>y_min chk - ly\<bar> < 15))"
  by (auto simp: blocked_def blocks_def list_ex_iff)

text \<open>
  Claim C7, as the code has it. A candidate is blocked exactly when, for some schema field
  name other than the
  one under evaluation, some fragment contains at least 0.7 of that field's key words, has
  its \<open>x_min\<close> strictly between \<open>label.x_min + 30\<close> and \<open>candidate.x_min - 30\<close>, and has its
  \<open>y_min\<close> strictly less than 15 pixels from the label's. A blocked fragment leaves the
  state of the
  scan unchanged, the fragment whose count is returned is not blocked, and when every
  accepted fragment with a number is blocked the linker returns nothing.
\<close>

theorem blocked_candidate_never_returned:
  "(blocked f names items lx ly x \<longleftrightarrow>
     (\<exists>other \<in> set names. other \<noteq> f
        \<and> (\<exists>chk \<in> set items. 7 / 10 \<le> other_match_quality other (lower (ftext chk))
              \<and> lx + 30 < x_min chk \<and> x_min chk < x - 30 \<and> \<bar>y_min chk - ly\<bar> < 15)))
   \<and> (blocked f names items lx ly (x_min v) \<longrightarrow> link_step f names items lx ly b v = b)
   \<and> (\<forall>n c. spatial_link f names items lx ly = Some (n, c) \<longrightarrow>
        (\<exists>w \<in> set items. (\<exists>s. re_search (ftext w) = Some (s, n)) \<and> c = confidence w
            \<and> \<not> blocked f names items lx ly (x_min w)))
   \<and> ((\<forall>v \<in> set items. re_search (ftext v) \<noteq> None \<and> accepted lx ly v
           \<longrightarrow> blocked f names items lx ly (x_min v))
        \<longrightarrow> spatial_link f names items lx ly = None)"
proof -
  have 2: "blocked f names items lx ly (x_min v) \<longrightarrow> link_step f names items lx ly b v = b"
    by (simp add: link_step_skip candidate_def)
  have 3: "\<forall>n c. spatial_link f names items lx ly = Some (n, c) \<longrightarrow>
        (\<exists>w \<in> set items. (\<exists>s. re_search (ftext w) = Some (s, n)) \<and> c = confidence w
            \<and> \<not> blocked f names items lx ly (x_min w))"
  proof (intro allI impI)
    fix n c assume "spatial_link f names items lx ly = Some (n, c)"
    from spatial_link_Some[OF this] show "\<exists>w \<in> set items. (\<exists>s. re_search (ftext w) = Some (s, n))
        \<and> c = confidence w \<and> \<not> blocked f names items lx ly (x_min w)"
      unfolding candidate_def by blast
  qed
  have 4: "(\<forall>v \<in> set items. re_search (ftext v) \<noteq> None \<and> accepted lx ly v
           \<longrightarrow> blocked f names items lx ly (x_min v))
        \<longrightarrow> spatial_link f names items lx ly = None"
    unfolding spatial_link_None candidate_def by blast
  from blocked_iff[of f names items lx ly x] 2 3 4 show ?thesis by blast
qed

text \<open>The label \<open>Paper cups\<close>, the label \<open>Paper straws\<close> to its right, and a count beyond both.\<close>

theorem blocked_candidate_never_returned_witness:
  "blocked ''Paper cups'' [''Paper cups'', ''Paper straws''] cups_line 10 10 200
   \<and> other_match_quality ''Paper straws'' (lower ''Paper straws'') = 1
   \<and> spatial_link ''Paper cups'' [''Paper cups'', ''Paper straws''] cups_line 10 10 = None
   \<and> find_item_count ''Paper cups'' cups_line [''Paper cups'', ''Paper straws''] = (0, 0)"
proof -
  have a: "blocked ''Paper cups'' [''Paper cups'', ''Paper straws''] cups_line 10 10 200" by code_simp
  have b: "other_match_quality ''Paper straws'' (lower ''Paper straws'') = 1" by code_simp
  have c: "\<forall>v \<in> set cups_line. re_search (ftext v) \<noteq> None \<and> accepted 10 10 v
           \<longrightarrow> blocked ''Paper cups'' [''Paper cups'', ''Paper straws''] cups_line 10 10 (x_min v)"
    by code_simp
  have d: "spatial_link ''Paper cups'' [''Paper cups'', ''Paper straws''] cups_line 10 10 = None"
    using blocked_candidate_never_returned[of "''Paper cups''" "[''Paper cups'', ''Paper straws'']"
        cups_line 10 10] c by blast
  have e: "find_item_count ''Paper cups'' cups_line [''Paper cups'', ''Paper straws''] = (0, 0)"
    by code_simp
  from a b d e show ?thesis by blast
qed

text \<open>
  Claim C7 as stated fails at a distance of exactly 15 pixels. The fragment \<open>Paper straws\<close>
  contains every key word of the other field, lies strictly between \<open>label.x_min + 30\<close>
  and \<open>candidate.x_min - 30\<close>, and its \<open>y_min\<close> is 15 pixels from the label's, so it is
  within 15 pixels; line 356 tests \<^verbatim>\<open>abs(check_y - item_y) < 15\<close>, so the candidate is
  not blocked and its count is returned.
\<close>

theorem blocked_at_fifteen_pixels_counterexample:
  "other_match_quality ''Paper straws'' (lower (ftext (cups_line_dy15 ! 1))) = 1
   \<and> ''Paper straws'' \<noteq> ''Paper cups''
   \<and> (10::int) + 30 < x_min (cups_line_dy15 ! 1) \<and> x_min (cups_line_dy15 ! 1) < 200 - 30
   \<and> \<bar>y_min (cups_line_dy15 ! 1) - 10\<bar> = 15
   \<and> re_search (ftext (cups_line_dy15 ! 2)) = Some (0, 5)
   \<and> x_min (cups_line_dy15 ! 2) = 200
   \<and> \<not> blocked ''Paper cups'' [''Paper cups'', ''Paper straws''] cups_line_dy15 10 10 200
   \<and> spatial_link ''Paper cups'' [''Paper cups'', ''Paper straws''] cups_line_dy15 10 10
       = Some (5, 8 / 10)
   \<and> find_item_count ''Paper cups'' cups_line_dy15 [''Paper cups'', ''Paper straws'']
       = (5, 8 / 10)"
  by code_simp

subsection \<open>The public entry point\<close>

lemma get_ocr_instance_engine:
  "get_ocr_instance new_ocr inst = (Inr ocr, st) \<longleftrightarrow>
     (inst = Some ocr \<and> st = inst) \<or> (inst = None \<and> new_ocr = Inr ocr \<and> st = Some ocr)"
  by (auto simp: get_ocr_instance_def split: option.splits sum.splits)

text \<open>
  Claim C10, as the code has it. Once \<^verbatim>\<open>get_ocr_instance\<close> has returned an engine,
  \<^verbatim>\<open>process_image\<close> returns a result and never an exception: the empty result when
  decoding, OCR or extraction raises, and the extracted result otherwise.
\<close>

theorem process_image_with_engine:
  assumes "get_ocr_instance new_ocr inst = (Inr ocr, st)"
  shows "\<exists>r. process_image new_ocr inst image_b64 schema = (Inr r, st)
           \<and> ((\<exists>e. process_image_to_form_result ocr image_b64 schema = Inl e)
                 \<longrightarrow> form_categories r = Map.empty)
           \<and> (\<forall>e. decode_base64_image ocr image_b64 = Inl e \<longrightarrow> form_categories r = Map.empty)
           \<and> (\<forall>img e. decode_base64_image ocr image_b64 = Inr img \<and> process_image_ocr ocr img = Inl e
                 \<longrightarrow> form_categories r = Map.empty)
           \<and> (\<forall>r'. process_image_to_form_result ocr image_b64 schema = Inr r' \<longrightarrow> r = r')"
  using assms
  by (cases "process_image_to_form_result ocr image_b64 schema")
     (auto simp: process_image_def process_image_to_form_result_def split: sum.splits option.splits)

text \<open>An engine whose decoder rejects the image.\<close>

theorem process_image_with_engine_witness:
  "get_ocr_instance (Inr failing_decoder) None = (Inr failing_decoder, Some failing_decoder)
   \<and> decode_base64_image failing_decoder ''AAAA'' = Inl (Exception ''cannot identify image file'')
   \<and> (\<exists>r. process_image (Inr failing_decoder) None ''AAAA'' metal_schema = (Inr r, Some failing_decoder)
          \<and> form_categories r = Map.empty)"
proof -
  have a: "get_ocr_instance (Inr failing_decoder) None = (Inr failing_decoder, Some failing_decoder)"
    by (simp add: get_ocr_instance_def)
  have b: "decode_base64_image failing_decoder ''AAAA'' = Inl (Exception ''cannot identify image file'')"
    by (simp add: failing_decoder_def)
  from process_image_with_engine[OF a, of "''AAAA''" metal_schema] a b show ?thesis by blast
qed

text \<open>
  Claim C10 as stated fails when no engine exists yet and its construction raises: the call
  of \<^verbatim>\<open>get_ocr_instance\<close> is outside the \<^verbatim>\<open>try\<close>, so the exception leaves
  \<^verbatim>\<open>process_image\<close>.
\<close>

theorem process_image_raises_counterexample:
  "fst (process_image (Inl (Exception ''model files not found'') :: error + string DataCardOCR)
          None ''AAAA'' metal_schema)
     = Inl (Exception ''model files not found'')"
  by (simp add: process_image_def get_ocr_instance_def)

end
